theory Spec2Isabelle
  imports Complex_Main "HOL-Library.AList" "HOL-Library.Multiset"
begin

section \<open>Data model of the task graph (workflow/tasks/graph.py)\<close>

text \<open>
  Task objects are mutable and compared by identity, so a task is a reference (its index in
  the graph's object table \<open>heap\<close>) and the attributes live in the table. Python sets of
  tasks that the code iterates over are duplicate-free lists; the listing order stands for
  the (unspecified) iteration order of the set. Dictionaries that are only looked up are
  maps; dictionaries that are iterated (to be written to a file) are association lists with
  one entry for each key.
\<close>

type_synonym task_ref = nat

datatype error =
    NonUniqueTask string
  | InvalidTaskDefinition string
  | AttributeError string
  | IndexError
  | KeyError string
  | ValueError string

datatype depends = DependsNone | DependsOne string | DependsList "string list"

record task_kwargs =
  kw_creates :: string
  kw_alias :: "string option"
  kw_depends :: depends
  kw_tags :: "string list"
  kw_pseudotask :: bool

record task =
  creates :: string
  task_alias :: "string option"
  depends :: depends
  tags :: "string list"
  pseudotask :: bool
  yaml_data :: task_kwargs
  upstream_tasks :: "task_ref list"
  downstream_tasks :: "task_ref list"

datatype resource = Resource string

type_synonym rows = "string list list"

text \<open>
  The two CSV files under \<open>.workflow\<close>: \<open>None\<close> is a file that does not exist, otherwise
  the rows that \<open>csv.reader\<close> yields. \<open>path_exists\<close> answers \<open>os.path.exists\<close> for a
  dependency path joined to the root directory.
\<close>

record storage =
  state_file :: "rows option"
  duration_file :: "rows option"
  path_exists :: "string \<Rightarrow> bool"

record task_graph =
  config_path :: string
  task_list :: "task_ref list"
  task_dict :: "string \<rightharpoonup> task_ref"
  heap :: "task list"
  resource_dict :: "(string \<times> resource) list"
  task_durations :: "(string \<times> rat) list"
  successful :: bool

section \<open>Persistence\<close>

text \<open>\<open>dictionary[row[0]] = row[1]\<close>; a row with fewer than two fields raises IndexError.\<close>

fun read_rows :: "rows \<Rightarrow> (string \<times> string) list \<Rightarrow> error + (string \<times> string) list" where
  "read_rows [] dictionary = Inr dictionary"
| "read_rows (row # rest) dictionary =
     (case row of
        k # v # _ \<Rightarrow> read_rows rest (AList.update k v dictionary)
      | _ \<Rightarrow> Inl IndexError)"

definition read_from_storage :: "rows option \<Rightarrow> error + (string \<times> string) list" where
  "read_from_storage storage_location =
     (case storage_location of
        None \<Rightarrow> Inr []
      | Some stream \<Rightarrow> read_rows stream [])"

definition write_to_storage :: "(string \<times> string) list \<Rightarrow> rows option" where
  "write_to_storage dictionary = Some (map (\<lambda>(k, v). [k, v]) dictionary)"

text \<open>\<open>after_resource_states[name] = resource.get_current_state()\<close> for every item.\<close>

fun overlay_current ::
  "(resource \<Rightarrow> string) \<Rightarrow> (string \<times> resource) list \<Rightarrow> (string \<times> string) list
     \<Rightarrow> (string \<times> string) list" where
  "overlay_current get_current_state [] after = after"
| "overlay_current get_current_state ((name, r) # rest) after =
     overlay_current get_current_state rest (AList.update name (get_current_state r) after)"

text \<open>\<open>dict.update(other)\<close>: every item of \<open>other\<close> is stored, later items win.\<close>

fun dict_update :: "(string \<times> 'v) list \<Rightarrow> (string \<times> 'v) list \<Rightarrow> (string \<times> 'v) list" where
  "dict_update [] d = d"
| "dict_update ((k, v) # rest) d = dict_update rest (AList.update k v d)"

text \<open>
  \<open>save_state\<close>: the fingerprint of a resource comes from the resource object
  (\<open>get_current_state\<close>) and a duration is written as text (\<open>show_float\<close>); both belong to
  code outside graph.py and are parameters. The override is \<open>None\<close> or a dictionary.
\<close>

definition save_state ::
  "(resource \<Rightarrow> string) \<Rightarrow> (rat \<Rightarrow> string) \<Rightarrow> task_graph \<Rightarrow> (string \<times> string) list option
     \<Rightarrow> storage \<Rightarrow> error + storage" where
  "save_state get_current_state show_float g override_resource_states st =
     (case read_from_storage (state_file st) of
        Inl e \<Rightarrow> Inl e
      | Inr old \<Rightarrow>
          let after_resource_states = overlay_current get_current_state (resource_dict g) old;
              after_resource_states =
                (case override_resource_states of
                   None \<Rightarrow> after_resource_states
                 | Some ov \<Rightarrow> dict_update ov after_resource_states)
          in Inr (st\<lparr>state_file := write_to_storage after_resource_states,
                     duration_file :=
                       write_to_storage (map (\<lambda>(k, d). (k, show_float d)) (task_durations g))\<rparr>))"

text \<open>The persisted entry of a resource: what a reader of the state table finds for it.\<close>

definition persisted_entry :: "storage \<Rightarrow> string \<Rightarrow> string option" where
  "persisted_entry st name =
     (case read_from_storage (state_file st) of
        Inl e \<Rightarrow> None
      | Inr d \<Rightarrow> map_of d name)"

section \<open>Graph traversal\<close>

text \<open>
  \<open>getattr(task, updownstream)\<close>. Every reference the code holds is an index of the object
  table; the guard only makes the model total.
\<close>

definition neighbours :: "task_graph \<Rightarrow> bool \<Rightarrow> task_ref \<Rightarrow> task_ref list" where
  "neighbours g downstream t =
     (if t < length (heap g)
      then (if downstream then downstream_tasks (heap g ! t) else upstream_tasks (heap g ! t))
      else [])"

definition get_source_tasks :: "task_graph \<Rightarrow> task_ref list" where
  "get_source_tasks g = filter (\<lambda>t. upstream_tasks (heap g ! t) = []) (task_list g)"

definition get_sink_tasks :: "task_graph \<Rightarrow> task_ref list" where
  "get_sink_tasks g = filter (\<lambda>t. downstream_tasks (heap g ! t) = []) (task_list g)"

text \<open>\<open>popleft\<close> takes the horizon's first element, \<open>pop\<close> its last one.\<close>

definition pop_task :: "bool \<Rightarrow> task_ref list \<Rightarrow> task_ref \<times> task_ref list" where
  "pop_task downstream horizon =
     (if downstream then (hd horizon, tl horizon) else (last horizon, butlast horizon))"

text \<open>The inner \<open>for\<close> loop over \<open>updownset.difference(done)\<close>.\<close>

fun enqueue ::
  "task_ref list \<Rightarrow> task_ref list \<times> task_ref set \<Rightarrow> task_ref list \<times> task_ref set" where
  "enqueue [] (horizon, horizon_set) = (horizon, horizon_set)"
| "enqueue (t # ts) (horizon, horizon_set) =
     (if t \<notin> horizon_set then enqueue ts (horizon @ [t], insert t horizon_set)
      else enqueue ts (horizon, horizon_set))"

text \<open>One turn of the \<open>while horizon\<close> loop, on a horizon that is not empty.\<close>

definition iter_step ::
  "task_graph \<Rightarrow> bool \<Rightarrow> task_ref list \<times> task_ref set \<times> task_ref set \<times> task_ref list
     \<Rightarrow> task_ref list \<times> task_ref set \<times> task_ref set \<times> task_ref list" where
  "iter_step g downstream s =
     (case s of (horizon, horizon_set, done_set, task_order) \<Rightarrow>
        (case pop_task downstream horizon of (task, horizon) \<Rightarrow>
           let horizon_set = horizon_set - {task};
               done_set = insert task done_set;
               task_order = task_order @ [task]
           in (case enqueue (filter (\<lambda>t. t \<notin> done_set) (neighbours g downstream task))
                      (horizon, horizon_set) of
                 (horizon, horizon_set) \<Rightarrow> (horizon, horizon_set, done_set, task_order))))"

text \<open>Every reference that occurs as a neighbour in the object table.\<close>

definition universe :: "task_graph \<Rightarrow> task_ref set" where
  "universe g = (\<Union>t \<in> set (heap g). set (upstream_tasks t) \<union> set (downstream_tasks t))"

definition iter_measure ::
  "task_graph \<Rightarrow> task_ref list \<times> task_ref set \<times> task_ref set \<times> task_ref list \<Rightarrow> nat" where
  "iter_measure g s =
     (case s of (horizon, horizon_set, done_set, task_order) \<Rightarrow>
        2 * card (universe g - done_set - horizon_set) + length horizon)"

lemma finite_universe: "finite (universe g)"
  by (simp add: universe_def)

lemma neighbours_universe: "set (neighbours g downstream t) \<subseteq> universe g"
  by (auto simp: neighbours_def universe_def intro!: bexI [of _ "heap g ! t"])

lemma enqueue_measure:
  "finite U \<Longrightarrow> set ns \<subseteq> U - D \<Longrightarrow> enqueue ns (h, hs) = (h', hs') \<Longrightarrow>
   2 * card (U - D - hs') + length h' \<le> 2 * card (U - D - hs) + length h"
proof (induction ns arbitrary: h hs)
  case Nil
  then show ?case by simp
next
  case (Cons t ns)
  show ?case
  proof (cases "t \<in> hs")
    case True
    with Cons show ?thesis by simp
  next
    case False
    from Cons.prems False have e: "enqueue ns (h @ [t], insert t hs) = (h', hs')" by simp
    from Cons.prems have ns: "set ns \<subseteq> U - D" by simp
    from Cons.IH [OF Cons.prems(1) ns e]
    have le: "2 * card (U - D - hs') + length h' \<le> 2 * card (U - D - insert t hs) + length h + 1"
      by simp
    from Cons.prems False have tin: "t \<in> U - D - hs" by simp
    have fin: "finite (U - D - hs)" using Cons.prems(1) by simp
    have "U - D - insert t hs = (U - D - hs) - {t}" by auto
    then have "card (U - D - insert t hs) = card (U - D - hs) - 1"
      using tin fin by simp
    moreover have "card (U - D - hs) > 0" using tin fin by (auto simp: card_gt_0_iff)
    ultimately show ?thesis using le by linarith
  qed
qed

lemma iter_step_measure:
  assumes "fst s \<noteq> []"
  shows "iter_measure g (iter_step g downstream s) < iter_measure g s"
proof -
  obtain h hs dn ord where s: "s = (h, hs, dn, ord)" by (cases s)
  obtain t h1 where p: "pop_task downstream h = (t, h1)" by (cases "pop_task downstream h")
  from assms s have hne: "h \<noteq> []" by simp
  with p have len: "length h1 + 1 = length h"
    by (auto simp: pop_task_def split: if_splits)
  obtain h' hs' where
    e: "enqueue (filter (\<lambda>x. x \<notin> insert t dn) (neighbours g downstream t)) (h1, hs - {t}) = (h', hs')"
    by (cases "enqueue (filter (\<lambda>x. x \<notin> insert t dn) (neighbours g downstream t)) (h1, hs - {t})")
  have sub: "set (filter (\<lambda>x. x \<notin> insert t dn) (neighbours g downstream t))
              \<subseteq> universe g - insert t dn"
    using neighbours_universe [of g downstream t] by auto
  from enqueue_measure [OF finite_universe sub e]
  have "2 * card (universe g - insert t dn - hs') + length h'
          \<le> 2 * card (universe g - insert t dn - (hs - {t})) + length h1" .
  moreover have "card (universe g - insert t dn - (hs - {t})) \<le> card (universe g - dn - hs)"
    by (rule card_mono) (auto simp: finite_universe)
  ultimately have "2 * card (universe g - insert t dn - hs') + length h'
          < 2 * card (universe g - dn - hs) + length h"
    using len by linarith
  then show ?thesis
    using s p e by (simp add: iter_step_def iter_measure_def)
qed

function iter_loop ::
  "task_graph \<Rightarrow> bool \<Rightarrow> task_ref list \<times> task_ref set \<times> task_ref set \<times> task_ref list
     \<Rightarrow> task_ref list" where
  "iter_loop g downstream s =
     (if fst s = [] then snd (snd (snd s))
      else iter_loop g downstream (iter_step g downstream s))"
  by pat_completeness auto
termination
  by (relation "measure (\<lambda>(g, downstream, s). iter_measure g s)")
     (simp_all add: iter_step_measure)

declare iter_loop.simps [simp del]

text \<open>
  \<open>iter_graph\<close>: \<open>tasks or self.get_source_tasks()\<close> takes the default when \<open>tasks\<close> is
  \<open>None\<close> or empty.
\<close>

definition iter_graph :: "task_graph \<Rightarrow> task_ref list option \<Rightarrow> bool \<Rightarrow> task_ref list" where
  "iter_graph g tasks downstream =
     (let given = (case tasks of None \<Rightarrow> [] | Some ts \<Rightarrow> ts);
          tasks = (if given \<noteq> [] then given
                   else if downstream then get_source_tasks g else get_sink_tasks g)
      in iter_loop g downstream (tasks, set tasks, {}, []))"

section \<open>Looking tasks up\<close>

text \<open>
  Modelled from the spec: \<open>Task.has_tag\<close> belongs to the Task class, which is not among the
  sources; a task has a tag when the tag is one of its declared labels.
\<close>

definition has_tag :: "task \<Rightarrow> string \<Rightarrow> bool" where
  "has_tag task tag = (tag \<in> set (tags task))"

text \<open>
  \<open>get_tasks\<close>. When the identifier is no key of \<open>task_dict\<close> the loop collects the tagged
  tasks in \<open>tasks\<close>, and the function then returns \<open>self.tag_dict.get(task)\<close>. No attribute
  \<open>tag_dict\<close> is defined anywhere in the class, so this path raises AttributeError; the
  collected list is never returned.
\<close>

definition get_tasks :: "task_graph \<Rightarrow> string \<Rightarrow> error + task_ref list" where
  "get_tasks g task_id_or_tag =
     (case task_dict g task_id_or_tag of
        None \<Rightarrow>
          (let tasks = filter (\<lambda>t. has_tag (heap g ! t) task_id_or_tag) (task_list g)
           in Inl (AttributeError ''tag_dict''))
      | Some task \<Rightarrow> Inr [task])"

section \<open>Graph construction\<close>

text \<open>
  Modelled from the spec: the constructor of the Task class is not among the sources. A
  task is created from its declaration record, keeps the record verbatim, starts without
  neighbours and registers itself with the graph through \<open>add\<close>.
\<close>

definition Task :: "task_kwargs \<Rightarrow> task" where
  "Task kw =
     \<lparr>creates = kw_creates kw, task_alias = kw_alias kw, depends = kw_depends kw,
      tags = kw_tags kw, pseudotask = kw_pseudotask kw, yaml_data = kw,
      upstream_tasks = [], downstream_tasks = []\<rparr>"

text \<open>
  \<open>add\<close>: the task is appended to \<open>task_list\<close> before any check. An error carries the state
  of the graph at the moment of the raise.
\<close>

definition add :: "task_graph \<Rightarrow> task_ref \<Rightarrow> (error \<times> task_graph) + task_graph" where
  "add g task =
     (let g = g\<lparr>task_list := task_list g @ [task]\<rparr>;
          a = task_alias (heap g ! task);
          c = creates (heap g ! task)
      in case (case a of
                 None \<Rightarrow> Inr g
               | Some a \<Rightarrow>
                   if task_dict g a \<noteq> None then Inl (NonUniqueTask a, g)
                   else Inr (g\<lparr>task_dict := (task_dict g)(a \<mapsto> task)\<rparr>)) of
           Inl e \<Rightarrow> Inl e
         | Inr g \<Rightarrow>
             if task_dict g c \<noteq> None then Inl (NonUniqueTask c, g)
             else Inr (g\<lparr>task_dict := (task_dict g)(c \<mapsto> task)\<rparr>))"

definition new_task :: "task_graph \<Rightarrow> task_kwargs \<Rightarrow> (error \<times> task_graph) + task_graph" where
  "new_task g kw = add (g\<lparr>heap := heap g @ [Task kw]\<rparr>) (length (heap g))"

text \<open>\<open>for task_kwargs in task_kwargs_list: task = Task(self, **task_kwargs)\<close>\<close>

fun add_tasks :: "task_graph \<Rightarrow> task_kwargs list \<Rightarrow> (error \<times> task_graph) + task_graph" where
  "add_tasks g [] = Inr g"
| "add_tasks g (kw # kws) =
     (case new_task g kw of
        Inl e \<Rightarrow> Inl e
      | Inr g' \<Rightarrow> add_tasks g' kws)"

subsection \<open>Alias dereferencing\<close>

fun first_alias :: "task_graph \<Rightarrow> task_ref list \<Rightarrow> string \<Rightarrow> string option" where
  "first_alias g [] name = None"
| "first_alias g (t # ts) name =
     (if task_alias (heap g ! t) = Some name then Some (creates (heap g ! t))
      else first_alias g ts name)"

definition dereference_alias_helper :: "task_graph \<Rightarrow> string option \<Rightarrow> string option" where
  "dereference_alias_helper g name =
     (case name of
        None \<Rightarrow> None
      | Some n \<Rightarrow> first_alias g (task_list g) n)"

text \<open>\<open>for i, d in enumerate(task.depends)\<close>: entry \<open>i\<close> is overwritten when \<open>dd\<close> is not None.\<close>

fun dereference_entries :: "task_graph \<Rightarrow> string list \<Rightarrow> string list" where
  "dereference_entries g [] = []"
| "dereference_entries g (d # ds) =
     (case dereference_alias_helper g (Some d) of
        None \<Rightarrow> d
      | Some dd \<Rightarrow> dd) # dereference_entries g ds"

definition dereference_task :: "task_graph \<Rightarrow> task_ref \<Rightarrow> task_graph" where
  "dereference_task g t =
     (let task = heap g ! t in
      case depends task of
        DependsList ds \<Rightarrow>
          g\<lparr>heap := (heap g)[t := task\<lparr>depends := DependsList (dereference_entries g ds)\<rparr>]\<rparr>
      | DependsOne d \<Rightarrow>
          (case dereference_alias_helper g (Some d) of
             None \<Rightarrow> g
           | Some dd \<Rightarrow> g\<lparr>heap := (heap g)[t := task\<lparr>depends := DependsOne dd\<rparr>]\<rparr>)
      | DependsNone \<Rightarrow>
          (case dereference_alias_helper g None of
             None \<Rightarrow> g
           | Some dd \<Rightarrow> g\<lparr>heap := (heap g)[t := task\<lparr>depends := DependsOne dd\<rparr>]\<rparr>))"

fun dereference_loop :: "task_ref list \<Rightarrow> task_graph \<Rightarrow> task_graph" where
  "dereference_loop [] g = g"
| "dereference_loop (t # ts) g = dereference_loop ts (dereference_task g t)"

definition dereference_depends_aliases :: "task_graph \<Rightarrow> task_graph" where
  "dereference_depends_aliases g = dereference_loop (task_list g) g"

subsection \<open>Linking\<close>

text \<open>
  Modelled from the spec: \<open>depends_list\<close>, \<open>creates_list\<close>, \<open>add_task_dependency\<close> of the
  Task class and \<open>resources.get_or_create\<close> are not among the sources. The lists hold the
  declared identifiers; a dependency registers the link on both tasks; a resource is
  created for a name unless the graph's mapping already has it.
\<close>

definition depends_list :: "task \<Rightarrow> string list" where
  "depends_list task =
     (case depends task of
        DependsNone \<Rightarrow> []
      | DependsOne d \<Rightarrow> [d]
      | DependsList ds \<Rightarrow> ds)"

definition creates_list :: "task \<Rightarrow> string list" where
  "creates_list task = [creates task]"

definition set_add :: "task_ref \<Rightarrow> task_ref list \<Rightarrow> task_ref list" where
  "set_add t ts = (if t \<in> set ts then ts else ts @ [t])"

definition add_task_dependency :: "task_graph \<Rightarrow> task_ref \<Rightarrow> task_ref \<Rightarrow> task_graph" where
  "add_task_dependency g task depends_on =
     (let h1 = (heap g)[task := (heap g ! task)
                  \<lparr>upstream_tasks := set_add depends_on (upstream_tasks (heap g ! task))\<rparr>];
          h2 = h1[depends_on := (h1 ! depends_on)
                  \<lparr>downstream_tasks := set_add task (downstream_tasks (h1 ! depends_on))\<rparr>]
      in g\<lparr>heap := h2\<rparr>)"

fun get_or_create :: "task_graph \<Rightarrow> string list \<Rightarrow> task_graph" where
  "get_or_create g [] = g"
| "get_or_create g (name # names) =
     get_or_create
       (if map_of (resource_dict g) name = None
        then g\<lparr>resource_dict := resource_dict g @ [(name, Resource name)]\<rparr> else g)
       names"

definition link_dependency_helper ::
  "storage \<Rightarrow> task_graph \<Rightarrow> task_ref \<Rightarrow> string \<Rightarrow> (error \<times> task_graph) + task_graph" where
  "link_dependency_helper st g task dependency =
     (case task_dict g dependency of
        None \<Rightarrow>
          if \<not> path_exists st dependency then Inl (InvalidTaskDefinition dependency, g)
          else Inr g
      | Some dependent_task \<Rightarrow> Inr (add_task_dependency g task dependent_task))"

fun link_each ::
  "storage \<Rightarrow> task_graph \<Rightarrow> task_ref \<Rightarrow> string list \<Rightarrow> (error \<times> task_graph) + task_graph" where
  "link_each st g task [] = Inr g"
| "link_each st g task (dependency # rest) =
     (case link_dependency_helper st g task dependency of
        Inl e \<Rightarrow> Inl e
      | Inr g' \<Rightarrow> link_each st g' task rest)"

text \<open>
  The body of the loop of \<open>_link_dependencies\<close> for one task. The resource lists that the
  code stores on the task are not used by graph.py again and are left out of the task
  record; \<open>del self.resource_dict[task.creates]\<close> raises KeyError on a missing key.
\<close>

definition link_task ::
  "storage \<Rightarrow> task_graph \<Rightarrow> task_ref \<Rightarrow> (error \<times> task_graph) + task_graph" where
  "link_task st g task =
     (let g = get_or_create g (depends_list (heap g ! task));
          g = get_or_create g (creates_list (heap g ! task))
      in case (if pseudotask (heap g ! task)
               then (if map_of (resource_dict g) (creates (heap g ! task)) = None
                     then Inl (KeyError (creates (heap g ! task)), g)
                     else Inr (g\<lparr>resource_dict :=
                                  AList.delete (creates (heap g ! task)) (resource_dict g)\<rparr>))
               else Inr g) of
           Inl e \<Rightarrow> Inl e
         | Inr g \<Rightarrow> link_each st g task (depends_list (heap g ! task)))"

fun link_loop ::
  "storage \<Rightarrow> task_ref list \<Rightarrow> task_graph \<Rightarrow> (error \<times> task_graph) + task_graph" where
  "link_loop st [] g = Inr g"
| "link_loop st (task # rest) g =
     (case link_task st g task of
        Inl e \<Rightarrow> Inl e
      | Inr g' \<Rightarrow> link_loop st rest g')"

definition link_dependencies :: "storage \<Rightarrow> task_graph \<Rightarrow> (error \<times> task_graph) + task_graph" where
  "link_dependencies st g = link_loop st (task_list g) g"

subsection \<open>Loading the persisted state\<close>

text \<open>
  \<open>float(duration)\<close> raises ValueError on text that is no number; the parser is a
  parameter (\<open>None\<close> for the error). Durations are exact rationals in the model.
\<close>

fun typecast ::
  "(string \<Rightarrow> rat option) \<Rightarrow> (string \<times> string) list \<Rightarrow> error + (string \<times> rat) list" where
  "typecast float [] = Inr []"
| "typecast float ((task_id, duration) # rest) =
     (case float duration of
        None \<Rightarrow> Inl (ValueError duration)
      | Some d \<Rightarrow>
          (case typecast float rest of
             Inl e \<Rightarrow> Inl e
           | Inr ds \<Rightarrow> Inr ((task_id, d) # ds)))"

text \<open>
  \<open>_load_state\<close> reads the duration table and nothing else. \<open>task_durations\<close> is the empty
  dictionary of \<open>__init__\<close> when it is called, so the update leaves the table read.
\<close>

definition load_state ::
  "(string \<Rightarrow> rat option) \<Rightarrow> storage \<Rightarrow> task_graph \<Rightarrow> (error \<times> task_graph) + task_graph" where
  "load_state float st g =
     (case read_from_storage (duration_file st) of
        Inl e \<Rightarrow> Inl (e, g)
      | Inr table \<Rightarrow>
          (case typecast float table of
             Inl e \<Rightarrow> Inl (e, g\<lparr>task_durations := []\<rparr>)
           | Inr ds \<Rightarrow> Inr (g\<lparr>task_durations := ds\<rparr>)))"

text \<open>
  \<open>TaskGraph.__init__\<close>. Creating the internal directories and configuring the logger
  touch nothing that graph.py reads back and are left out.
\<close>

definition empty_graph :: "string \<Rightarrow> task_graph" where
  "empty_graph path =
     \<lparr>config_path = path, task_list = [], task_dict = Map.empty, heap = [],
      resource_dict = [], task_durations = [], successful = False\<rparr>"

definition TaskGraph ::
  "(string \<Rightarrow> rat option) \<Rightarrow> storage \<Rightarrow> string \<Rightarrow> task_kwargs list
     \<Rightarrow> (error \<times> task_graph) + task_graph" where
  "TaskGraph float st path task_kwargs_list =
     (case add_tasks (empty_graph path) task_kwargs_list of
        Inl e \<Rightarrow> Inl e
      | Inr g \<Rightarrow>
          (case link_dependencies st (dereference_depends_aliases g) of
             Inl e \<Rightarrow> Inl e
           | Inr g \<Rightarrow> load_state float st g))"

section \<open>Subgraph extraction\<close>

datatype graph_instance = SameInstance | FreshInstance task_graph

fun collect_tasks :: "task_graph \<Rightarrow> string list \<Rightarrow> error + task_ref list" where
  "collect_tasks g [] = Inr []"
| "collect_tasks g (task_id # rest) =
     (case get_tasks g task_id of
        Inl e \<Rightarrow> Inl e
      | Inr ts \<Rightarrow>
          (case collect_tasks g rest of
             Inl e \<Rightarrow> Inl e
           | Inr others \<Rightarrow> Inr (ts @ others)))"

text \<open>
  \<open>subgraph_needed_for\<close>: \<open>not task_ids\<close> holds for \<open>None\<close> and for the empty list, and then
  the graph itself is returned. Otherwise a new graph is built from the declarations.
\<close>

definition subgraph_needed_for ::
  "(string \<Rightarrow> rat option) \<Rightarrow> storage \<Rightarrow> task_graph \<Rightarrow> string list option
     \<Rightarrow> error + graph_instance" where
  "subgraph_needed_for float st g task_ids =
     (if task_ids = None \<or> task_ids = Some [] then Inr SameInstance
      else case collect_tasks g (the task_ids) of
             Inl e \<Rightarrow> Inl e
           | Inr tasks \<Rightarrow>
               (let tasks_kwargs_list =
                      map (\<lambda>t. yaml_data (heap g ! t)) (iter_graph g (Some tasks) False)
                in case TaskGraph float st (config_path g) tasks_kwargs_list of
                     Inl (e, partial) \<Rightarrow> Inl e
                   | Inr subgraph \<Rightarrow> Inr (FreshInstance subgraph)))"

section \<open>Duration estimate\<close>

text \<open>
  Durations are IEEE doubles in the source and exact rationals here: comparisons with the
  thresholds are the same, and the arithmetic agrees wherever the doubles are exact (as for
  the values 0.0, 5.0 and 7200.0). \<open>"%.2f"\<close> rounds the value to two decimals, ties to even,
  and prints a sign for a negative value.
\<close>

definition digit :: "nat \<Rightarrow> char" where
  "digit d = ''0123456789'' ! (d mod 10)"

fun show_nat :: "nat \<Rightarrow> string" where
  "show_nat n = (if n < 10 then [digit n] else show_nat (n div 10) @ [digit (n mod 10)])"

declare show_nat.simps [simp del]

definition round_half_even :: "rat \<Rightarrow> int" where
  "round_half_even x =
     (let f = \<lfloor>x\<rfloor>; r = x - of_int f
      in if r < 1 / 2 then f
         else if 1 / 2 < r then f + 1
         else if even f then f else f + 1)"

definition format_2f :: "rat \<Rightarrow> string" where
  "format_2f x =
     (let n = nat (round_half_even (\<bar>x\<bar> * 100))
      in (if x < 0 then ''-'' else []) @ show_nat (n div 100) @ ''.''
           @ [digit (n mod 100 div 10), digit (n mod 10)])"

definition duration_string :: "rat \<Rightarrow> string" where
  "duration_string duration =
     (if duration < 10 * 60 then format_2f duration @ '' s''
      else if duration < 2 * 60 * 60 then format_2f (duration / 60) @ '' m''
      else if duration < 2 * 60 * 60 * 24 then format_2f (duration / 60 / 60) @ '' h''
      else format_2f (duration / 60 / 60 / 24) @ '' d'')"

text \<open>
  The two accumulating loops of \<open>duration_message\<close>. \<open>task.id\<close> is an attribute of the Task
  class and a parameter here.
\<close>

fun sum_known :: "(task \<Rightarrow> string) \<Rightarrow> task_graph \<Rightarrow> task_ref list \<Rightarrow> rat \<Rightarrow> rat" where
  "sum_known task_id g [] min_duration = min_duration"
| "sum_known task_id g (t # ts) min_duration =
     sum_known task_id g ts
       (min_duration +
          (case map_of (task_durations g) (task_id (heap g ! t)) of
             None \<Rightarrow> 0
           | Some d \<Rightarrow> d))"

fun count_closure ::
  "(task \<Rightarrow> string) \<Rightarrow> task_graph \<Rightarrow> task_ref list \<Rightarrow> rat \<times> nat \<times> nat \<Rightarrow> rat \<times> nat \<times> nat" where
  "count_closure task_id g [] acc = acc"
| "count_closure task_id g (t # ts) (max_duration, n_unknown, n_tasks) =
     count_closure task_id g ts
       (if \<not> pseudotask (heap g ! t)
        then (case map_of (task_durations g) (task_id (heap g ! t)) of
                None \<Rightarrow> (max_duration, n_unknown + 1, n_tasks + 1)
              | Some d \<Rightarrow> (max_duration + d, n_unknown, n_tasks + 1))
        else (max_duration, n_unknown, n_tasks))"

text \<open>
  \<open>duration_message\<close>: \<open>relpath\<close> is the workflow path relative to the working directory,
  \<open>color\<close> the optional colouring function (\<open>colors.blue\<close> by default).
\<close>

definition duration_message ::
  "(task \<Rightarrow> string) \<Rightarrow> string \<Rightarrow> (string \<Rightarrow> string) option \<Rightarrow> task_graph \<Rightarrow> task_ref list
     \<Rightarrow> string" where
  "duration_message task_id relpath color g tasks =
     (if length tasks = 0
      then ''No tasks are out of sync in this workflow ('' @ relpath @ '')''
      else
        let min_duration = sum_known task_id g tasks 0
        in case count_closure task_id g (iter_graph g (Some tasks) True) (0, 0, 0) of
             (max_duration, n_unknown, n_tasks) \<Rightarrow>
               let msg = [];
                   msg = (if n_unknown > 0
                          then msg @ show_nat n_unknown @ '' new tasks with unknown durations.''
                                 @ [CHR 0x0A]
                          else msg);
                   msg = msg @ ''The remaining '' @ show_nat (length tasks) @ ''-''
                           @ show_nat n_tasks @ '' tasks need to be executed,'' @ [CHR 0x0A];
                   msg = (if max_duration = min_duration \<and> min_duration = 0
                          then msg @ ''which will take an indeterminate amount of time.''
                          else if max_duration = min_duration
                          then msg @ ''which will take approximately ''
                                 @ duration_string min_duration @ ''.''
                          else msg @ ''which will take between '' @ duration_string min_duration
                                 @ '' and '' @ duration_string max_duration @ ''.'')
               in (case color of
                     None \<Rightarrow> msg
                   | Some paint \<Rightarrow> paint msg))"

section \<open>Execution\<close>

text \<open>
  A run acts on the storage, on the duration table of the graph and on the world outside;
  what it does outside is a trace of events. The collaborators (the Task and Resource
  classes, the logger) are parameters; whatever state they keep is a function of the events
  so far. \<open>SaveState\<close> records a call of \<open>save_state\<close> with its override argument. A
  ShellError carries its exit code when it has one.
\<close>

datatype exception = KeyboardInterrupt | ShellError "int option" | OtherException string

datatype event =
    Log string
  | MockRun task_ref
  | TimedRun task_ref
  | SaveState "(string \<times> string) list option"


text \<open>
  Modelled from the spec: \<open>timed_run\<close> belongs to the Task class, which is not among the
  sources. It raises, or it returns the duration it observed, which is kept under the id of
  the task in \<open>task_durations\<close>.
\<close>

record collaborators =
  task_id :: "task \<Rightarrow> string"
  in_sync :: "event list \<Rightarrow> task_ref \<Rightarrow> bool"
  timed_run :: "event list \<Rightarrow> task_ref \<Rightarrow> exception + rat"
  resource_state :: "event list \<Rightarrow> resource \<Rightarrow> string"
  float_repr :: "rat \<Rightarrow> string"
  relative_path :: string
  blue :: "string \<Rightarrow> string"











section \<open>Notions used in the statements\<close>

text \<open>
  The keys a task contributes to \<open>task_dict\<close>: its alias when it has one, and its creates
  identifier. A graph is \<open>registered\<close> when every task of the object table is in
  \<open>task_list\<close>, all keys are pairwise distinct and \<open>task_dict\<close> maps exactly these keys,
  each to its task. It is \<open>unlinked\<close> as long as no dependency link, resource or duration
  has been stored.
\<close>

definition key_entry :: "task \<Rightarrow> string list" where
  "key_entry t = (case task_alias t of None \<Rightarrow> [] | Some a \<Rightarrow> [a]) @ [creates t]"

definition keys_of :: "task_graph \<Rightarrow> string list" where
  "keys_of g = concat (map key_entry (heap g))"

definition unlinked :: "task_graph \<Rightarrow> bool" where
  "unlinked g =
     ((\<forall>t \<in> set (heap g). upstream_tasks t = [] \<and> downstream_tasks t = [])
      \<and> resource_dict g = [] \<and> task_durations g = [])"

definition registered :: "task_graph \<Rightarrow> bool" where
  "registered g =
     (task_list g = [0..<length (heap g)] \<and> distinct (keys_of g)
      \<and> dom (task_dict g) = set (keys_of g)
      \<and> (\<forall>t \<in> set (task_list g). \<forall>k \<in> set (key_entry (heap g ! t)). task_dict g k = Some t))"

text \<open>
  Two graphs have the \<open>same_tasks\<close> when their tasks agree in creates identifier and alias
  and the lookup structures are the same; dereferencing, linking and loading keep them.
\<close>

definition same_tasks :: "task_graph \<Rightarrow> task_graph \<Rightarrow> bool" where
  "same_tasks g g' =
     (length (heap g') = length (heap g)
      \<and> (\<forall>u. creates (heap g' ! u) = creates (heap g ! u)
             \<and> task_alias (heap g' ! u) = task_alias (heap g ! u))
      \<and> task_dict g' = task_dict g \<and> task_list g' = task_list g
      \<and> config_path g' = config_path g)"

text \<open>
  What dereferencing has to achieve, in the words of the specification: an entry that is the
  alias of a task becomes the creates identifier of that task, and an entry that is the
  alias of no task stays as it is. \<open>dereferenced\<close> lifts this to a \<open>depends\<close> value, entry by
  entry.
\<close>

definition resolves_to :: "task_graph \<Rightarrow> string \<Rightarrow> string \<Rightarrow> bool" where
  "resolves_to g d d' =
     ((\<forall>u \<in> set (heap g). task_alias u = Some d \<longrightarrow> d' = creates u)
      \<and> ((\<forall>u \<in> set (heap g). task_alias u \<noteq> Some d) \<longrightarrow> d' = d))"

definition dereferenced :: "task_graph \<Rightarrow> depends \<Rightarrow> depends \<Rightarrow> bool" where
  "dereferenced g before after =
     (case before of
        DependsNone \<Rightarrow> after = DependsNone
      | DependsOne d \<Rightarrow> (case after of DependsOne d' \<Rightarrow> resolves_to g d d' | _ \<Rightarrow> False)
      | DependsList ds \<Rightarrow>
          (case after of DependsList ds' \<Rightarrow> list_all2 (resolves_to g) ds ds' | _ \<Rightarrow> False))"

text \<open>The value that the loop body of \<open>_dereference_depends_aliases\<close> stores for one task.\<close>

definition dereference_entry :: "task_graph \<Rightarrow> string \<Rightarrow> string" where
  "dereference_entry g d =
     (case dereference_alias_helper g (Some d) of None \<Rightarrow> d | Some dd \<Rightarrow> dd)"

definition dereference_value :: "task_graph \<Rightarrow> depends \<Rightarrow> depends" where
  "dereference_value g dep =
     (case dep of
        DependsNone \<Rightarrow> DependsNone
      | DependsOne d \<Rightarrow> DependsOne (dereference_entry g d)
      | DependsList ds \<Rightarrow> DependsList (map (dereference_entry g) ds))"









section \<open>Example inputs\<close>

definition example_storage :: storage where
  "example_storage =
     \<lparr>state_file = Some [[''A'', ''1''], [''B'', ''2''], [''C'', ''3'']],
      duration_file = None,
      path_exists = (\<lambda>p. False)\<rparr>"

definition example_subgraph :: task_graph where
  "example_subgraph =
     \<lparr>config_path = ''wf.yaml'', task_list = [], task_dict = Map.empty, heap = [],
      resource_dict = [(''A'', Resource ''A'')], task_durations = [],
      successful = False\<rparr>"

definition example_declarations :: "task_kwargs list" where
  "example_declarations =
     [\<lparr>kw_creates = ''a'', kw_alias = Some ''first'', kw_depends = DependsNone,
       kw_tags = [''nightly''], kw_pseudotask = False\<rparr>,
      \<lparr>kw_creates = ''b'', kw_alias = None, kw_depends = DependsOne ''first'',
       kw_tags = [''nightly''], kw_pseudotask = False\<rparr>,
      \<lparr>kw_creates = ''c'', kw_alias = None, kw_depends = DependsList [''first'', ''b''],
       kw_tags = [], kw_pseudotask = False\<rparr>]"

definition example_float :: "string \<Rightarrow> rat option" where
  "example_float s =
     (if s = ''5.0'' then Some 5 else if s = ''7200.0'' then Some 7200 else None)"

definition example_graph :: task_graph where
  "example_graph =
     \<lparr>config_path = ''wf.yaml'',
      task_list = [0, 1, 2],
      task_dict = [''first'' \<mapsto> 0, ''a'' \<mapsto> 0, ''b'' \<mapsto> 1, ''c'' \<mapsto> 2],
      heap =
        [\<lparr>creates = ''a'', task_alias = Some ''first'', depends = DependsNone,
          tags = [''nightly''], pseudotask = False, yaml_data = example_declarations ! 0,
          upstream_tasks = [], downstream_tasks = [1, 2]\<rparr>,
         \<lparr>creates = ''b'', task_alias = None, depends = DependsOne ''a'',
          tags = [''nightly''], pseudotask = False, yaml_data = example_declarations ! 1,
          upstream_tasks = [0], downstream_tasks = [2]\<rparr>,
         \<lparr>creates = ''c'', task_alias = None, depends = DependsList [''a'', ''b''],
          tags = [], pseudotask = False, yaml_data = example_declarations ! 2,
          upstream_tasks = [0, 1], downstream_tasks = []\<rparr>],
      resource_dict = [(''a'', Resource ''a''), (''b'', Resource ''b''), (''c'', Resource ''c'')],
      task_durations = [],
      successful = False\<rparr>"

definition example_added :: task_graph where
  "example_added =
     \<lparr>config_path = ''wf.yaml'',
      task_list = [0, 1, 2],
      task_dict = [''first'' \<mapsto> 0, ''a'' \<mapsto> 0, ''b'' \<mapsto> 1, ''c'' \<mapsto> 2],
      heap = map Task example_declarations,
      resource_dict = [], task_durations = [], successful = False\<rparr>"



definition example_fork_declarations :: "string list \<Rightarrow> task_kwargs list" where
  "example_fork_declarations needs =
     [\<lparr>kw_creates = ''d'', kw_alias = None, kw_depends = DependsNone,
       kw_tags = [], kw_pseudotask = False\<rparr>,
      \<lparr>kw_creates = ''e'', kw_alias = None, kw_depends = DependsNone,
       kw_tags = [], kw_pseudotask = False\<rparr>,
      \<lparr>kw_creates = ''a'', kw_alias = None, kw_depends = DependsOne ''d'',
       kw_tags = [], kw_pseudotask = False\<rparr>,
      \<lparr>kw_creates = ''b'', kw_alias = None, kw_depends = DependsOne ''e'',
       kw_tags = [], kw_pseudotask = False\<rparr>,
      \<lparr>kw_creates = ''c'', kw_alias = None, kw_depends = DependsList needs,
       kw_tags = [], kw_pseudotask = False\<rparr>]"

definition example_fork :: "task_ref list \<Rightarrow> string list \<Rightarrow> task_graph" where
  "example_fork up needs =
     \<lparr>config_path = ''wf.yaml'',
      task_list = [0, 1, 2, 3, 4],
      task_dict = [''d'' \<mapsto> 0, ''e'' \<mapsto> 1, ''a'' \<mapsto> 2, ''b'' \<mapsto> 3, ''c'' \<mapsto> 4],
      heap =
        [\<lparr>creates = ''d'', task_alias = None, depends = DependsNone, tags = [],
          pseudotask = False, yaml_data = example_fork_declarations needs ! 0,
          upstream_tasks = [], downstream_tasks = [2]\<rparr>,
         \<lparr>creates = ''e'', task_alias = None, depends = DependsNone, tags = [],
          pseudotask = False, yaml_data = example_fork_declarations needs ! 1,
          upstream_tasks = [], downstream_tasks = [3]\<rparr>,
         \<lparr>creates = ''a'', task_alias = None, depends = DependsOne ''d'', tags = [],
          pseudotask = False, yaml_data = example_fork_declarations needs ! 2,
          upstream_tasks = [0], downstream_tasks = [4]\<rparr>,
         \<lparr>creates = ''b'', task_alias = None, depends = DependsOne ''e'', tags = [],
          pseudotask = False, yaml_data = example_fork_declarations needs ! 3,
          upstream_tasks = [1], downstream_tasks = [4]\<rparr>,
         \<lparr>creates = ''c'', task_alias = None, depends = DependsList needs, tags = [],
          pseudotask = False, yaml_data = example_fork_declarations needs ! 4,
          upstream_tasks = up, downstream_tasks = []\<rparr>],
      resource_dict = [(''d'', Resource ''d''), (''e'', Resource ''e''), (''a'', Resource ''a''),
                       (''b'', Resource ''b''), (''c'', Resource ''c'')],
      task_durations = [],
      successful = False\<rparr>"

section \<open>Lemmas on the persisted tables\<close>

lemma distinct_update_keys:
  "distinct (map fst d) \<Longrightarrow> distinct (map fst (AList.update k v d))"
  by (simp add: distinct_update)

lemma read_rows_distinct:
  "read_rows rs d = Inr d' \<Longrightarrow> distinct (map fst d) \<Longrightarrow> distinct (map fst d')"
proof (induction rs arbitrary: d)
  case Nil
  then show ?case by simp
next
  case (Cons row rs)
  then show ?case
    by (auto split: list.splits simp: distinct_update)
qed

lemma overlay_current_distinct:
  "distinct (map fst d) \<Longrightarrow> distinct (map fst (overlay_current f rd d))"
  by (induction f rd d rule: overlay_current.induct) (simp_all add: distinct_update)

lemma dict_update_distinct:
  "distinct (map fst d) \<Longrightarrow> distinct (map fst (dict_update ov d))"
  by (induction ov d rule: dict_update.induct) (simp_all add: distinct_update)

lemma overlay_current_other:
  "name \<notin> fst ` set rd \<Longrightarrow> map_of (overlay_current f rd d) name = map_of d name"
  by (induction f rd d rule: overlay_current.induct) (auto simp: update_conv')

lemma dict_update_other:
  "name \<notin> fst ` set ov \<Longrightarrow> map_of (dict_update ov d) name = map_of d name"
  by (induction ov d rule: dict_update.induct) (auto simp: update_conv')

lemma read_rows_written:
  "distinct (map fst d) \<Longrightarrow>
   \<exists>d'. read_rows (map (\<lambda>(k, v). [k, v]) d) acc = Inr d' \<and>
        map_of d' = map_of acc ++ map_of d"
proof (induction d arbitrary: acc)
  case Nil
  then show ?case by simp
next
  case (Cons kv d)
  obtain k v where kv: "kv = (k, v)" by (cases kv)
  from Cons.prems kv have dd: "distinct (map fst d)" and kd: "k \<notin> fst ` set d" by auto
  from Cons.IH [OF dd, of "AList.update k v acc"]
  obtain d' where r: "read_rows (map (\<lambda>(k, v). [k, v]) d) (AList.update k v acc) = Inr d'"
    and m: "map_of d' = map_of (AList.update k v acc) ++ map_of d" by blast
  have "map_of (AList.update k v acc) ++ map_of d = map_of acc ++ map_of ((k, v) # d)"
  proof
    fix x
    show "(map_of (AList.update k v acc) ++ map_of d) x = (map_of acc ++ map_of ((k, v) # d)) x"
    proof (cases "x = k")
      case True
      from kd have "map_of d k = None" by (simp add: map_of_eq_None_iff)
      with True show ?thesis by (simp add: map_add_def update_conv')
    next
      case False
      then show ?thesis by (simp add: map_add_def update_conv' split: option.splits)
    qed
  qed
  with m have "map_of d' = map_of acc ++ map_of ((k, v) # d)" by (rule trans)
  moreover have "read_rows (map (\<lambda>(k, v). [k, v]) ((k, v) # d)) acc = Inr d'"
    using r by simp
  ultimately show ?case unfolding kv by blast
qed

lemma read_written:
  "distinct (map fst d) \<Longrightarrow>
   \<exists>d'. read_from_storage (write_to_storage d) = Inr d' \<and> map_of d' = map_of d"
  using read_rows_written [of d "[]"]
  by (simp add: read_from_storage_def write_to_storage_def)

section \<open>Claim C1\<close>

text \<open>
  C1. \<open>save_state\<close> merges: it reads the table on disk, stores the current fingerprint of
  every resource of this graph's \<open>resource_dict\<close>, applies the overrides and writes the
  result. Whenever it returns, a resource name that is neither a key of \<open>resource_dict\<close> nor
  a key of the overrides has the same persisted entry after the save as before it. (When the
  table on disk cannot be read, the exception leaves before anything is written.)
\<close>

theorem save_state_keeps_foreign_entries:
  assumes "save_state get_current_state show_float g override_resource_states st = Inr st'"
    and "name \<notin> fst ` set (resource_dict g)"
    and "name \<notin> fst ` set (case override_resource_states of None \<Rightarrow> [] | Some ov \<Rightarrow> ov)"
  shows "persisted_entry st' name = persisted_entry st name"
proof -
  from assms(1) obtain old where old: "read_from_storage (state_file st) = Inr old"
    by (auto simp: save_state_def split: sum.splits)
  define mid where "mid = overlay_current get_current_state (resource_dict g) old"
  define fin where
    "fin = (case override_resource_states of None \<Rightarrow> mid | Some ov \<Rightarrow> dict_update ov mid)"
  have st': "state_file st' = write_to_storage fin"
    unfolding mid_def fin_def using assms(1) old
    by (auto simp: save_state_def Let_def)
  have "distinct (map fst old)"
    using old read_rows_distinct [of _ "[]" old]
    by (auto simp: read_from_storage_def split: option.splits)
  then have "distinct (map fst mid)"
    unfolding mid_def by (rule overlay_current_distinct)
  then have "distinct (map fst fin)"
    unfolding fin_def by (auto split: option.splits intro: dict_update_distinct)
  from read_written [OF this] obtain d' where
    d': "read_from_storage (write_to_storage fin) = Inr d'" "map_of d' = map_of fin" by blast
  have "map_of fin name = map_of mid name"
    using assms(3) unfolding fin_def by (auto split: option.splits simp: dict_update_other)
  also have "\<dots> = map_of old name"
    unfolding mid_def using assms(2) by (rule overlay_current_other)
  finally show ?thesis
    using d' st' old by (simp add: persisted_entry_def)
qed

theorem save_state_keeps_foreign_entries_witness:
  "save_state (\<lambda>r. ''9'') (\<lambda>d. ''0'') example_subgraph None example_storage =
     Inr (example_storage\<lparr>state_file := Some [[''A'', ''9''], [''B'', ''2''], [''C'', ''3'']],
                          duration_file := Some []\<rparr>)
   \<and> persisted_entry
        (example_storage\<lparr>state_file := Some [[''A'', ''9''], [''B'', ''2''], [''C'', ''3'']],
                          duration_file := Some []\<rparr>) ''B''
      = persisted_entry example_storage ''B''
   \<and> persisted_entry example_storage ''B'' = Some ''2''"
proof -
  have run: "save_state (\<lambda>r. ''9'') (\<lambda>d. ''0'') example_subgraph None example_storage =
     Inr (example_storage\<lparr>state_file := Some [[''A'', ''9''], [''B'', ''2''], [''C'', ''3'']],
                          duration_file := Some []\<rparr>)"
    by (simp add: save_state_def read_from_storage_def write_to_storage_def
        example_storage_def example_subgraph_def)
  have own: "''B'' \<notin> fst ` set (resource_dict example_subgraph)"
    by (simp add: example_subgraph_def)
  have ov: "''B'' \<notin> fst ` set (case None of None \<Rightarrow> [] | Some ov \<Rightarrow> ov)"
    by simp
  have before: "persisted_entry example_storage ''B'' = Some ''2''"
    by (simp add: persisted_entry_def read_from_storage_def example_storage_def)
  from save_state_keeps_foreign_entries [OF run own ov] run before show ?thesis
    by simp
qed

section \<open>Lemmas on the traversal\<close>

lemma enqueue_shape:
  "\<exists>new. enqueue ns (h, hs) = (h @ new, hs \<union> set new) \<and> distinct new \<and> set new = set ns - hs"
proof (induction ns arbitrary: h hs)
  case Nil
  then show ?case by simp
next
  case (Cons t ns)
  show ?case
  proof (cases "t \<in> hs")
    case True
    from Cons.IH [of h hs] obtain new where
      "enqueue ns (h, hs) = (h @ new, hs \<union> set new)" "distinct new" "set new = set ns - hs"
      by blast
    with True show ?thesis by auto
  next
    case False
    from Cons.IH [of "h @ [t]" "insert t hs"] obtain new where
      n: "enqueue ns (h @ [t], insert t hs) = ((h @ [t]) @ new, insert t hs \<union> set new)"
        "distinct new" "set new = set ns - insert t hs"
      by blast
    have "enqueue (t # ns) (h, hs) = (h @ (t # new), hs \<union> set (t # new))"
      using False n(1) by simp
    moreover have "distinct (t # new)" using n(2,3) by auto
    moreover have "set (t # new) = set (t # ns) - hs" using n(3) False by auto
    ultimately show ?thesis by blast
  qed
qed

lemma iter_step_shape:
  assumes "h \<noteq> []" and "pop_task downstream h = (t, h1)"
  shows "\<exists>new. iter_step g downstream (h, hs, dn, ord) =
            (h1 @ new, (hs - {t}) \<union> set new, insert t dn, ord @ [t])
          \<and> distinct new
          \<and> set new = set (neighbours g downstream t) - insert t dn - (hs - {t})"
proof -
  from enqueue_shape [of "filter (\<lambda>x. x \<notin> insert t dn) (neighbours g downstream t)" h1 "hs - {t}"]
  obtain new where
    n: "enqueue (filter (\<lambda>x. x \<notin> insert t dn) (neighbours g downstream t)) (h1, hs - {t})
          = (h1 @ new, (hs - {t}) \<union> set new)"
       "distinct new"
       "set new = set (filter (\<lambda>x. x \<notin> insert t dn) (neighbours g downstream t)) - (hs - {t})"
    by blast
  have "iter_step g downstream (h, hs, dn, ord) =
            (h1 @ new, (hs - {t}) \<union> set new, insert t dn, ord @ [t])"
    using assms(2) n(1) by (simp add: iter_step_def)
  moreover have "set new = set (neighbours g downstream t) - insert t dn - (hs - {t})"
    using n(3) by auto
  ultimately show ?thesis using n(2) by blast
qed

lemma iter_loop_fifo:
  "downstream \<Longrightarrow> \<exists>rest. iter_loop g downstream s = snd (snd (snd s)) @ fst s @ rest"
proof (induction g downstream s rule: iter_loop.induct)
  case (1 g downstream s)
  obtain h hs dn ord where s: "s = (h, hs, dn, ord)" by (cases s)
  show ?case
  proof (cases "h = []")
    case True
    with s show ?thesis by (simp add: iter_loop.simps)
  next
    case False
    then obtain t h1 where h: "h = t # h1" by (cases h) auto
    with "1.prems" have p: "pop_task downstream h = (t, h1)" by (simp add: pop_task_def)
    from iter_step_shape [OF False p, of g hs dn ord] obtain new where
      st: "iter_step g downstream (h, hs, dn, ord) =
            (h1 @ new, (hs - {t}) \<union> set new, insert t dn, ord @ [t])" by blast
    from "1.IH" [OF _ "1.prems"] False s st
    obtain rest where "iter_loop g downstream (iter_step g downstream s) = (ord @ [t]) @ (h1 @ new) @ rest"
      by auto
    moreover have "iter_loop g downstream s = iter_loop g downstream (iter_step g downstream s)"
      using False s by (subst iter_loop.simps) simp
    ultimately show ?thesis using s h by simp
  qed
qed

lemma iter_loop_lifo:
  "\<not> downstream \<Longrightarrow> distinct (fst s) \<Longrightarrow> set (fst s) \<subseteq> fst (snd s) \<Longrightarrow>
   set (fst s) \<inter> fst (snd (snd s)) = {} \<Longrightarrow>
   \<exists>out. iter_loop g downstream s = snd (snd (snd s)) @ out \<and>
         filter (\<lambda>t. t \<in> set (fst s)) out = rev (fst s) \<and>
         set out \<inter> fst (snd (snd s)) = {}"
proof (induction g downstream s rule: iter_loop.induct)
  case (1 g downstream s)
  obtain h hs dn ord where s: "s = (h, hs, dn, ord)" by (cases s)
  show ?case
  proof (cases "h = []")
    case True
    with s show ?thesis by (simp add: iter_loop.simps)
  next
    case False
    define t where "t = last h"
    define h0 where "h0 = butlast h"
    from False have h: "h = h0 @ [t]" by (simp add: t_def h0_def)
    from "1.prems"(1) have p: "pop_task downstream h = (t, h0)"
      by (simp add: pop_task_def t_def h0_def)
    from iter_step_shape [OF False p, of g hs dn ord] obtain new where
      st: "iter_step g downstream (h, hs, dn, ord) =
            (h0 @ new, (hs - {t}) \<union> set new, insert t dn, ord @ [t])"
      and dnew: "distinct new"
      and snew: "set new = set (neighbours g downstream t) - insert t dn - (hs - {t})" by blast
    from "1.prems" s h have dh: "distinct h0" "t \<notin> set h0" "set h0 \<subseteq> hs" "set h0 \<inter> dn = {}"
      "t \<notin> dn" by auto
    have disj: "set h0 \<inter> set new = {}" using dh snew by auto
    have i1: "distinct (fst (iter_step g downstream s))"
      using st s dh dnew disj by simp
    have i2: "set (fst (iter_step g downstream s)) \<subseteq> fst (snd (iter_step g downstream s))"
      using st s dh by auto
    have i3: "set (fst (iter_step g downstream s)) \<inter> fst (snd (snd (iter_step g downstream s))) = {}"
      using st s dh snew by auto
    from "1.IH" [OF _ "1.prems"(1) i1 i2 i3] False s st
    obtain out' where o: "iter_loop g downstream (iter_step g downstream s) = (ord @ [t]) @ out'"
      "filter (\<lambda>x. x \<in> set (h0 @ new)) out' = rev (h0 @ new)"
      "set out' \<inter> insert t dn = {}"
      by auto
    have unf: "iter_loop g downstream s = iter_loop g downstream (iter_step g downstream s)"
      using False s by (subst iter_loop.simps) simp
    have tout: "t \<notin> set out'" using o(3) by auto
    have "filter (\<lambda>x. x \<in> set h0) out' = filter (\<lambda>x. x \<in> set h0) (filter (\<lambda>x. x \<in> set (h0 @ new)) out')"
      by (simp add: conj_commute cong: filter_cong) (metis (mono_tags, lifting) filter_cong)
    also have "\<dots> = filter (\<lambda>x. x \<in> set h0) (rev new @ rev h0)" using o(2) by simp
    also have "\<dots> = rev h0" using disj by (auto simp: filter_empty_conv filter_id_conv)
    finally have f0: "filter (\<lambda>x. x \<in> set h0) out' = rev h0" .
    have "filter (\<lambda>x. x \<in> set h) (t # out') = t # filter (\<lambda>x. x \<in> set h0) out'"
      using h tout by (auto intro: filter_cong)
    with f0 have f: "filter (\<lambda>x. x \<in> set h) (t # out') = rev h" using h by simp
    have "set (t # out') \<inter> dn = {}" using o(3) dh by auto
    with f o(1) unf s show ?thesis by (intro exI [of _ "t # out'"]) simp
  qed
qed

section \<open>Claim C4\<close>

text \<open>
  C4 fails on the code. The docstring of \<open>iter_graph\<close> promises a breadth-first search and the
  downstream direction removes the first node of the horizon (\<open>popleft\<close>), but the upstream
  direction removes the last one (\<open>pop\<close>): the node enqueued last is visited first. In the
  fork example task c (4) depends on a (2) and b (3), a depends on d (0) and b on e (1).
  Breadth-first upstream from c visits c, then a and b, then d and e. The code visits c, one
  of a and b, the dependency of that one, and only then the other: a task two steps away is
  visited before a task one step away, in whichever order the set of c's upstream tasks is
  iterated. Downstream from the sources the same graph is visited level by level.
\<close>

theorem iter_graph_upstream_not_breadth_first:
  "TaskGraph example_float example_storage ''wf.yaml'' (example_fork_declarations [''a'', ''b''])
     = Inr (example_fork [2, 3] [''a'', ''b''])
   \<and> TaskGraph example_float example_storage ''wf.yaml'' (example_fork_declarations [''b'', ''a''])
     = Inr (example_fork [3, 2] [''b'', ''a''])
   \<and> iter_graph (example_fork [2, 3] [''a'', ''b'']) (Some [4]) False = [4, 3, 1, 2, 0]
   \<and> iter_graph (example_fork [3, 2] [''b'', ''a'']) (Some [4]) False = [4, 2, 0, 3, 1]
   \<and> iter_graph (example_fork [2, 3] [''a'', ''b'']) None True = [0, 1, 2, 3, 4]"
proof -
  have c1: "TaskGraph example_float example_storage ''wf.yaml''
      (example_fork_declarations [''a'', ''b'']) = Inr (example_fork [2, 3] [''a'', ''b''])"
    by (simp add: TaskGraph_def example_fork_declarations_def example_fork_def
      example_storage_def empty_graph_def new_task_def add_def Task_def
      dereference_depends_aliases_def dereference_task_def dereference_alias_helper_def
      link_dependencies_def link_task_def depends_list_def creates_list_def
      link_dependency_helper_def add_task_dependency_def set_add_def load_state_def
      read_from_storage_def Let_def numeral_2_eq_2 numeral_3_eq_3 eval_nat_numeral)
  have c2: "TaskGraph example_float example_storage ''wf.yaml''
      (example_fork_declarations [''b'', ''a'']) = Inr (example_fork [3, 2] [''b'', ''a''])"
    by (simp add: TaskGraph_def example_fork_declarations_def example_fork_def
      example_storage_def empty_graph_def new_task_def add_def Task_def
      dereference_depends_aliases_def dereference_task_def dereference_alias_helper_def
      link_dependencies_def link_task_def depends_list_def creates_list_def
      link_dependency_helper_def add_task_dependency_def set_add_def load_state_def
      read_from_storage_def Let_def numeral_2_eq_2 numeral_3_eq_3 eval_nat_numeral)
  have u1: "iter_graph (example_fork [2, 3] [''a'', ''b'']) (Some [4]) False = [4, 3, 1, 2, 0]"
    by (simp add: iter_graph_def iter_loop.simps iter_step_def pop_task_def neighbours_def
        example_fork_def)
  have u2: "iter_graph (example_fork [3, 2] [''b'', ''a'']) (Some [4]) False = [4, 2, 0, 3, 1]"
    by (simp add: iter_graph_def iter_loop.simps iter_step_def pop_task_def neighbours_def
        example_fork_def)
  have d1: "iter_graph (example_fork [2, 3] [''a'', ''b'']) None True = [0, 1, 2, 3, 4]"
    by (simp add: iter_graph_def get_source_tasks_def iter_loop.simps iter_step_def pop_task_def
        neighbours_def example_fork_def)
  from c1 c2 u1 u2 d1 show ?thesis by simp
qed

text \<open>
  What holds in general: downstream the pending nodes are visited in the order in which they
  were enqueued, before every node enqueued later; upstream the pending nodes are visited in
  the reverse of that order.
\<close>

lemma iter_loop_pending_order:
  "(\<exists>rest. iter_loop g True (h, hs, dn, ord) = ord @ h @ rest) \<and>
   (distinct h \<and> set h \<subseteq> hs \<and> set h \<inter> dn = {} \<longrightarrow>
      (\<exists>out. iter_loop g False (h, hs, dn, ord) = ord @ out \<and>
             filter (\<lambda>t. t \<in> set h) out = rev h))"
proof (intro conjI impI)
  show "\<exists>rest. iter_loop g True (h, hs, dn, ord) = ord @ h @ rest"
    using iter_loop_fifo [of True g "(h, hs, dn, ord)"] by simp
next
  assume "distinct h \<and> set h \<subseteq> hs \<and> set h \<inter> dn = {}"
  then show "\<exists>out. iter_loop g False (h, hs, dn, ord) = ord @ out \<and>
             filter (\<lambda>t. t \<in> set h) out = rev h"
    using iter_loop_lifo [of False "(h, hs, dn, ord)" g] by auto
qed

section \<open>Claim C5\<close>

text \<open>
  C5 fails on the code, by a slip in \<open>get_tasks\<close>: an identifier that is no key of
  \<open>task_dict\<close> makes the function collect the tagged tasks and then raise AttributeError
  instead of returning them. In the example graph the tag \<open>nightly\<close> is carried by tasks 0
  and 1, and asking for it raises. An exact creates id or alias resolves to its task.
\<close>

theorem get_tasks_tag_raises:
  "filter (\<lambda>t. has_tag (heap example_graph ! t) ''nightly'') (task_list example_graph) = [0, 1]
   \<and> get_tasks example_graph ''nightly'' = Inl (AttributeError ''tag_dict'')
   \<and> get_tasks example_graph ''first'' = Inr [0]
   \<and> get_tasks example_graph ''b'' = Inr [1]"
  by (simp add: get_tasks_def has_tag_def example_graph_def)

section \<open>Claim C10\<close>

text \<open>
  C10. \<open>subgraph_needed_for\<close> returns the graph instance itself when the collection of
  identifiers is \<open>None\<close> or empty. For a collection that is not empty it never returns the
  instance itself: it raises, or returns a graph newly constructed from the declarations of
  the tasks that the upstream traversal collects.
\<close>

theorem subgraph_needed_for_same_instance:
  "subgraph_needed_for float st g None = Inr SameInstance
   \<and> subgraph_needed_for float st g (Some []) = Inr SameInstance
   \<and> subgraph_needed_for float st g (Some (i # ids)) \<noteq> Inr SameInstance
   \<and> subgraph_needed_for float st g (Some (i # ids)) =
       (case collect_tasks g (i # ids) of
          Inl e \<Rightarrow> Inl e
        | Inr tasks \<Rightarrow>
            (case TaskGraph float st (config_path g)
                    (map (\<lambda>t. yaml_data (heap g ! t)) (iter_graph g (Some tasks) False)) of
               Inl (e, partial) \<Rightarrow> Inl e
             | Inr subgraph \<Rightarrow> Inr (FreshInstance subgraph)))"
  by (simp add: subgraph_needed_for_def Let_def split: sum.splits prod.splits)

section \<open>Lemmas on the construction\<close>

lemma keys_of_append: "keys_of (g\<lparr>heap := heap g @ [x]\<rparr>) = keys_of g @ key_entry x"
  by (simp add: keys_of_def)

lemma add_raises:
  assumes "task_dict g (creates (heap g ! t)) \<noteq> None \<or>
           (\<exists>a. task_alias (heap g ! t) = Some a \<and> task_dict g a \<noteq> None)"
  shows "\<exists>k g'. add g t = Inl (NonUniqueTask k, g')"
  using assms by (auto simp: add_def Let_def split: option.splits)

lemma add_result:
  "add g t = Inl (e, g') \<Longrightarrow>
     heap g' = heap g \<and> task_list g' = task_list g @ [t] \<and> (\<exists>k. e = NonUniqueTask k)
     \<and> resource_dict g' = resource_dict g \<and> task_durations g' = task_durations g"
  by (auto simp: add_def Let_def split: option.splits if_splits)

lemma add_ok:
  "add g t = Inr g' \<Longrightarrow>
     heap g' = heap g \<and> task_list g' = task_list g @ [t]
     \<and> resource_dict g' = resource_dict g \<and> task_durations g' = task_durations g
     \<and> set (key_entry (heap g ! t)) \<inter> dom (task_dict g) = {}
     \<and> distinct (key_entry (heap g ! t))
     \<and> dom (task_dict g') = dom (task_dict g) \<union> set (key_entry (heap g ! t))
     \<and> (\<forall>k \<in> set (key_entry (heap g ! t)). task_dict g' k = Some t)
     \<and> (\<forall>k. k \<notin> set (key_entry (heap g ! t)) \<longrightarrow> task_dict g' k = task_dict g k)"
  by (auto simp: add_def Let_def key_entry_def split: option.splits if_splits)

lemma new_task_ok:
  assumes "registered g" "unlinked g" "new_task g kw = Inr g'"
  shows "registered g' \<and> unlinked g' \<and> heap g' = heap g @ [Task kw]
         \<and> config_path g' = config_path g"
proof -
  let ?g1 = "g\<lparr>heap := heap g @ [Task kw]\<rparr>"
  let ?n = "length (heap g)"
  from assms(3) have a: "add ?g1 ?n = Inr g'" by (simp add: new_task_def)
  note r = add_ok [OF a]
  have ke: "key_entry (heap ?g1 ! ?n) = key_entry (Task kw)" by simp
  from r have h: "heap g' = heap g @ [Task kw]" by simp
  from r assms(1) have tl: "task_list g' = [0..<length (heap g')]"
    by (simp add: registered_def)
  have ko: "keys_of g' = keys_of g @ key_entry (Task kw)"
    using h by (simp add: keys_of_def)
  from r ke assms(1) have d: "distinct (keys_of g')"
    unfolding ko by (auto simp: registered_def)
  from r ke assms(1) have dm: "dom (task_dict g') = set (keys_of g')"
    unfolding ko by (auto simp: registered_def)
  have own: "\<forall>t \<in> set (task_list g'). \<forall>k \<in> set (key_entry (heap g' ! t)). task_dict g' k = Some t"
  proof (intro ballI)
    fix t k assume t: "t \<in> set (task_list g')" and k: "k \<in> set (key_entry (heap g' ! t))"
    show "task_dict g' k = Some t"
    proof (cases "t = ?n")
      case True
      with k h r ke show ?thesis by (simp add: nth_append)
    next
      case False
      with t tl h have lt: "t < ?n" by simp
      with k h have k': "k \<in> set (key_entry (heap g ! t))" by (simp add: nth_append)
      with lt have "k \<in> set (keys_of g)" by (auto simp: keys_of_def)
      with assms(1) have "k \<in> dom (task_dict g)" by (simp add: registered_def)
      with r ke have "k \<notin> set (key_entry (heap ?g1 ! ?n))" by auto
      with r have "task_dict g' k = task_dict ?g1 k" by blast
      moreover from assms(1) lt k' have "task_dict g k = Some t" by (simp add: registered_def)
      ultimately show ?thesis by simp
    qed
  qed
  have cp: "config_path g' = config_path g"
    using a by (auto simp: add_def Let_def split: option.splits if_splits)
  have "unlinked g'" using assms(2) r h by (simp add: unlinked_def Task_def)
  with tl d dm own h cp show ?thesis by (simp add: registered_def)
qed

lemma new_task_fail:
  assumes "unlinked g" "new_task g kw = Inl (e, g')"
  shows "unlinked g' \<and> heap g' = heap g @ [Task kw] \<and> (\<exists>k. e = NonUniqueTask k)"
proof -
  from assms(2) have a: "add (g\<lparr>heap := heap g @ [Task kw]\<rparr>) (length (heap g)) = Inl (e, g')"
    by (simp add: new_task_def)
  from add_result [OF a] assms(1) show ?thesis by (simp add: unlinked_def Task_def)
qed

lemma registered_empty: "registered (empty_graph p) \<and> unlinked (empty_graph p)"
  by (simp add: registered_def unlinked_def empty_graph_def keys_of_def)

lemma add_tasks_ok:
  "registered g \<Longrightarrow> unlinked g \<Longrightarrow> add_tasks g kws = Inr g' \<Longrightarrow>
   registered g' \<and> unlinked g' \<and> heap g' = heap g @ map Task kws \<and> config_path g' = config_path g"
proof (induction kws arbitrary: g)
  case Nil
  then show ?case by simp
next
  case (Cons kw kws)
  from Cons.prems(3) obtain g1 where n: "new_task g kw = Inr g1" and r: "add_tasks g1 kws = Inr g'"
    by (auto split: sum.splits)
  from new_task_ok [OF Cons.prems(1,2) n] Cons.IH [OF _ _ r] show ?case by simp
qed

lemma add_tasks_append:
  "add_tasks g kws1 = Inr g1 \<Longrightarrow> add_tasks g (kws1 @ kws2) = add_tasks g1 kws2"
  by (induction kws1 arbitrary: g) (auto split: sum.splits)

lemma same_tasks_refl: "same_tasks g g"
  by (simp add: same_tasks_def)

lemma same_tasks_trans: "same_tasks g g1 \<Longrightarrow> same_tasks g1 g2 \<Longrightarrow> same_tasks g g2"
  by (simp add: same_tasks_def)

lemma nth_update_field: "f x = f (h ! t) \<Longrightarrow> f (h[t := x] ! u) = f (h ! u)"
  by (cases "t < length h"; cases "u = t") (simp_all add: list_update_beyond)

lemma same_tasks_heap_update:
  "creates x = creates (heap g ! t) \<Longrightarrow> task_alias x = task_alias (heap g ! t) \<Longrightarrow>
   same_tasks g (g\<lparr>heap := (heap g)[t := x]\<rparr>)"
  by (simp add: same_tasks_def nth_update_field [where f = creates]
      nth_update_field [where f = task_alias])

lemma dereference_task_same: "same_tasks g (dereference_task g t)"
  by (auto simp: dereference_task_def Let_def same_tasks_refl intro!: same_tasks_heap_update
      split: depends.splits option.splits)

lemma dereference_loop_same: "same_tasks g (dereference_loop ts g)"
proof (induction ts arbitrary: g)
  case Nil
  show ?case by (simp add: same_tasks_refl)
next
  case (Cons t ts)
  from same_tasks_trans [OF dereference_task_same Cons.IH] show ?case by simp
qed

lemma get_or_create_same: "same_tasks g (get_or_create g names) \<and> heap (get_or_create g names) = heap g"
proof (induction names arbitrary: g)
  case Nil
  show ?case by (simp add: same_tasks_refl)
next
  case (Cons n names)
  let ?g1 = "if map_of (resource_dict g) n = None
        then g\<lparr>resource_dict := resource_dict g @ [(n, Resource n)]\<rparr> else g"
  have "same_tasks g ?g1 \<and> heap ?g1 = heap g" by (simp add: same_tasks_def)
  with Cons.IH [of ?g1] show ?case by (auto intro: same_tasks_trans simp del: map_of_eq_None_iff)
qed

lemma add_task_dependency_same: "same_tasks g (add_task_dependency g t d)"
  by (simp add: add_task_dependency_def Let_def same_tasks_def
      nth_update_field [where f = creates] nth_update_field [where f = task_alias])

lemma link_dependency_helper_same:
  "link_dependency_helper st g t d = Inr g' \<Longrightarrow> same_tasks g g'"
  by (auto simp: link_dependency_helper_def same_tasks_refl add_task_dependency_same
      split: option.splits if_splits)

lemma link_each_same: "link_each st g t ds = Inr g' \<Longrightarrow> same_tasks g g'"
proof (induction ds arbitrary: g)
  case Nil
  then show ?case by (simp add: same_tasks_refl)
next
  case (Cons d ds)
  from Cons.prems obtain g1 where a: "link_dependency_helper st g t d = Inr g1"
    and b: "link_each st g1 t ds = Inr g'" by (auto split: sum.splits)
  from same_tasks_trans [OF link_dependency_helper_same [OF a] Cons.IH [OF b]] show ?case .
qed

lemma link_task_same:
  assumes "link_task st g t = Inr g'"
  shows "same_tasks g g'"
proof -
  define g1 where "g1 = get_or_create g (depends_list (heap g ! t))"
  define g2 where "g2 = get_or_create g1 (creates_list (heap g1 ! t))"
  have s2: "same_tasks g g2"
    unfolding g2_def g1_def using get_or_create_same same_tasks_trans by blast
  define g3 where "g3 = (if pseudotask (heap g2 ! t)
      then g2\<lparr>resource_dict := AList.delete (creates (heap g2 ! t)) (resource_dict g2)\<rparr>
      else g2)"
  have g3: "same_tasks g2 g3" by (simp add: g3_def same_tasks_def)
  have l: "link_each st g3 t (depends_list (heap g3 ! t)) = Inr g'"
    using assms
    unfolding link_task_def Let_def g1_def [symmetric] g2_def [symmetric] g3_def
    by (auto split: sum.splits if_splits)
  from same_tasks_trans [OF same_tasks_trans [OF s2 g3] link_each_same [OF l]] show ?thesis .
qed

lemma link_loop_same: "link_loop st ts g = Inr g' \<Longrightarrow> same_tasks g g'"
proof (induction ts arbitrary: g)
  case Nil
  then show ?case by (simp add: same_tasks_refl)
next
  case (Cons t ts)
  from Cons.prems obtain g1 where a: "link_task st g t = Inr g1"
    and b: "link_loop st ts g1 = Inr g'" by (auto split: sum.splits)
  from same_tasks_trans [OF link_task_same [OF a] Cons.IH [OF b]] show ?case .
qed

lemma load_state_same: "load_state float st g = Inr g' \<Longrightarrow> same_tasks g g'"
  by (auto simp: load_state_def same_tasks_def split: sum.splits)

lemma same_tasks_key_entry: "same_tasks g g' \<Longrightarrow> key_entry (heap g' ! u) = key_entry (heap g ! u)"
  by (simp add: same_tasks_def key_entry_def)

lemma same_tasks_keys: "same_tasks g g' \<Longrightarrow> keys_of g' = keys_of g"
proof -
  assume s: "same_tasks g g'"
  have "map key_entry (heap g') = map key_entry (heap g)"
    using s same_tasks_key_entry [OF s]
    by (auto simp: list_eq_iff_nth_eq same_tasks_def)
  then show ?thesis by (simp add: keys_of_def)
qed

lemma same_tasks_registered: "same_tasks g g' \<Longrightarrow> registered g \<Longrightarrow> registered g'"
  using same_tasks_keys [of g g'] same_tasks_key_entry [of g g']
  by (simp add: registered_def same_tasks_def)

lemma TaskGraph_registered:
  assumes "TaskGraph float st p kws = Inr g"
  shows "registered g \<and> length (heap g) = length kws \<and> config_path g = p"
proof -
  from assms obtain g1 g2 where a: "add_tasks (empty_graph p) kws = Inr g1"
    and l: "link_dependencies st (dereference_depends_aliases g1) = Inr g2"
    and ld: "load_state float st g2 = Inr g"
    by (auto simp: TaskGraph_def split: sum.splits)
  from add_tasks_ok [OF _ _ a] registered_empty [of p]
  have r1: "registered g1" and h1: "heap g1 = map Task kws" and c1: "config_path g1 = p"
    by (simp_all add: empty_graph_def)
  have s1: "same_tasks g1 (dereference_depends_aliases g1)"
    by (simp add: dereference_depends_aliases_def dereference_loop_same)
  from l have s2: "same_tasks (dereference_depends_aliases g1) g2"
    by (simp add: link_dependencies_def link_loop_same)
  from same_tasks_trans [OF same_tasks_trans [OF s1 s2] load_state_same [OF ld]]
  have s: "same_tasks g1 g" .
  from same_tasks_registered [OF s r1] s h1 c1 show ?thesis by (simp add: same_tasks_def)
qed

section \<open>Claim C7\<close>

text \<open>
  C7. (1) \<open>add\<close> raises NonUniqueTask when the creates identifier of the task, or its alias
  when it has one, is already a key of \<open>task_dict\<close>. (2) When the registration of a
  declaration raises during construction, \<open>TaskGraph\<close> raises that error with the graph as
  it was at that moment: the tasks declared up to the failing one and no later one, without
  any dependency link, resource or duration. (3) In every graph that \<open>TaskGraph\<close> returns,
  the creates identifiers and the aliases of all tasks are pairwise distinct and are exactly
  the keys of \<open>task_dict\<close>.
\<close>

theorem add_rejects_duplicate_keys:
  "((task_dict g (creates (heap g ! t)) \<noteq> None \<or>
      (\<exists>a. task_alias (heap g ! t) = Some a \<and> task_dict g a \<noteq> None))
     \<longrightarrow> (\<exists>k g'. add g t = Inl (NonUniqueTask k, g')))
   \<and> (add_tasks (empty_graph p) kws1 = Inr g1 \<and> new_task g1 kw = Inl (e, g2)
     \<longrightarrow> TaskGraph float st p (kws1 @ kw # kws2) = Inl (e, g2)
         \<and> (\<exists>k. e = NonUniqueTask k)
         \<and> heap g2 = map Task (kws1 @ [kw]) \<and> unlinked g2)
   \<and> (TaskGraph float st p kws = Inr g3
     \<longrightarrow> distinct (keys_of g3) \<and> dom (task_dict g3) = set (keys_of g3)
         \<and> length (heap g3) = length kws)"
proof -
  have p1: "(task_dict g (creates (heap g ! t)) \<noteq> None \<or>
      (\<exists>a. task_alias (heap g ! t) = Some a \<and> task_dict g a \<noteq> None))
     \<longrightarrow> (\<exists>k g'. add g t = Inl (NonUniqueTask k, g'))"
    using add_raises [of g t] by blast
  have p2: "add_tasks (empty_graph p) kws1 = Inr g1 \<and> new_task g1 kw = Inl (e, g2)
     \<longrightarrow> TaskGraph float st p (kws1 @ kw # kws2) = Inl (e, g2)
         \<and> (\<exists>k. e = NonUniqueTask k)
         \<and> heap g2 = map Task (kws1 @ [kw]) \<and> unlinked g2"
  proof
    assume a: "add_tasks (empty_graph p) kws1 = Inr g1 \<and> new_task g1 kw = Inl (e, g2)"
    from add_tasks_ok [OF _ _ conjunct1 [OF a]] registered_empty [of p]
    have u1: "unlinked g1" and h1: "heap g1 = map Task kws1" by (simp_all add: empty_graph_def)
    from new_task_fail [OF u1 conjunct2 [OF a]] h1
    have r: "unlinked g2" "heap g2 = map Task (kws1 @ [kw])" "\<exists>k. e = NonUniqueTask k"
      by simp_all
    have "add_tasks (empty_graph p) (kws1 @ kw # kws2) = Inl (e, g2)"
      using add_tasks_append [OF conjunct1 [OF a], of "kw # kws2"] a by simp
    then have "TaskGraph float st p (kws1 @ kw # kws2) = Inl (e, g2)"
      by (simp add: TaskGraph_def)
    with r show "TaskGraph float st p (kws1 @ kw # kws2) = Inl (e, g2)
         \<and> (\<exists>k. e = NonUniqueTask k)
         \<and> heap g2 = map Task (kws1 @ [kw]) \<and> unlinked g2" by simp
  qed
  have p3: "TaskGraph float st p kws = Inr g3
     \<longrightarrow> distinct (keys_of g3) \<and> dom (task_dict g3) = set (keys_of g3)
         \<and> length (heap g3) = length kws"
    using TaskGraph_registered [of float st p kws g3] by (simp add: registered_def)
  from p1 p2 p3 show ?thesis by (intro conjI)
qed

lemma example_graph_constructed:
  "TaskGraph example_float example_storage ''wf.yaml'' example_declarations = Inr example_graph"
  by (simp add: TaskGraph_def example_declarations_def example_graph_def example_storage_def
      empty_graph_def new_task_def add_def Task_def dereference_depends_aliases_def
      dereference_task_def dereference_alias_helper_def link_dependencies_def link_task_def
      depends_list_def creates_list_def link_dependency_helper_def add_task_dependency_def
      set_add_def load_state_def read_from_storage_def Let_def numeral_2_eq_2)

theorem add_rejects_duplicate_keys_witness:
  "(\<exists>g'. add example_graph 1 = Inl (NonUniqueTask ''b'', g'))
   \<and> (\<exists>g'. TaskGraph example_float example_storage ''wf.yaml''
              ([example_declarations ! 0] @ example_declarations ! 0 # [example_declarations ! 2])
            = Inl (NonUniqueTask ''first'', g')
          \<and> heap g' = map Task [example_declarations ! 0, example_declarations ! 0]
          \<and> unlinked g')
   \<and> TaskGraph example_float example_storage ''wf.yaml'' example_declarations = Inr example_graph
   \<and> distinct (keys_of example_graph)
   \<and> keys_of example_graph = [''first'', ''a'', ''b'', ''c'']"
proof -
  define g1 where "g1 = (empty_graph ''wf.yaml'')
      \<lparr>task_list := [0], task_dict := [''first'' \<mapsto> 0, ''a'' \<mapsto> 0],
       heap := [Task (example_declarations ! 0)]\<rparr>"
  define g2 where "g2 = g1\<lparr>task_list := [0, 1],
       heap := [Task (example_declarations ! 0), Task (example_declarations ! 0)]\<rparr>"
  have h1: "task_dict example_graph (creates (heap example_graph ! 1)) \<noteq> None \<or>
      (\<exists>a. task_alias (heap example_graph ! 1) = Some a \<and> task_dict example_graph a \<noteq> None)"
    by (simp add: example_graph_def)
  have a1: "add_tasks (empty_graph ''wf.yaml'') [example_declarations ! 0] = Inr g1"
    by (simp add: g1_def example_declarations_def empty_graph_def new_task_def add_def Task_def
        Let_def)
  have a2: "new_task g1 (example_declarations ! 0) = Inl (NonUniqueTask ''first'', g2)"
    by (simp add: g1_def g2_def example_declarations_def empty_graph_def new_task_def add_def
        Task_def Let_def)
  note ex = example_graph_constructed
  note t = add_rejects_duplicate_keys [of example_graph 1 "''wf.yaml''"
      "[example_declarations ! 0]" g1 "example_declarations ! 0" "NonUniqueTask ''first''" g2
      example_float example_storage "[example_declarations ! 2]" example_declarations
      example_graph]
  have c1: "\<exists>g'. add example_graph 1 = Inl (NonUniqueTask ''b'', g')"
    using t h1 by (auto simp: add_def Let_def example_graph_def)
  have c2: "\<exists>g'. TaskGraph example_float example_storage ''wf.yaml''
              ([example_declarations ! 0] @ example_declarations ! 0 # [example_declarations ! 2])
            = Inl (NonUniqueTask ''first'', g')
          \<and> heap g' = map Task [example_declarations ! 0, example_declarations ! 0]
          \<and> unlinked g'"
    using t a1 a2 by auto
  have c3: "distinct (keys_of example_graph)" using t ex by blast
  have c4: "keys_of example_graph = [''first'', ''a'', ''b'', ''c'']"
    by (simp add: keys_of_def key_entry_def example_graph_def)
  from c1 c2 ex c3 c4 show ?thesis by blast
qed

section \<open>Lemmas on alias dereferencing\<close>

lemma first_alias_same: "same_tasks g g' \<Longrightarrow> first_alias g' ts n = first_alias g ts n"
  by (induction ts) (simp_all add: same_tasks_def)

lemma dereference_entry_same: "same_tasks g g' \<Longrightarrow> dereference_entry g' d = dereference_entry g d"
  using first_alias_same [of g g']
  by (simp add: dereference_entry_def dereference_alias_helper_def same_tasks_def)

lemma dereference_value_same: "same_tasks g g' \<Longrightarrow> dereference_value g' dep = dereference_value g dep"
  by (simp add: dereference_value_def dereference_entry_same split: depends.splits)

lemma dereference_entries_map: "dereference_entries g ds = map (dereference_entry g) ds"
  by (induction ds) (simp_all add: dereference_entry_def)

lemma heap_update_id:
  "depends (heap g ! t) = d \<Longrightarrow> g\<lparr>heap := (heap g)[t := (heap g ! t)\<lparr>depends := d\<rparr>]\<rparr> = g"
proof -
  assume "depends (heap g ! t) = d"
  then have "(heap g ! t)\<lparr>depends := d\<rparr> = heap g ! t" by auto
  then show ?thesis by simp
qed

lemma dereference_task_value:
  "dereference_task g t =
     g\<lparr>heap := (heap g)[t := (heap g ! t)\<lparr>depends := dereference_value g (depends (heap g ! t))\<rparr>]\<rparr>"
  by (simp add: dereference_task_def dereference_value_def dereference_entries_map
      dereference_entry_def dereference_alias_helper_def Let_def heap_update_id
      split: depends.splits option.splits)

lemma dereference_loop_nth:
  "same_tasks g0 g \<Longrightarrow> distinct ts \<Longrightarrow>
   heap (dereference_loop ts g) ! u =
     (if u \<in> set ts \<and> u < length (heap g)
      then (heap g ! u)\<lparr>depends := dereference_value g0 (depends (heap g ! u))\<rparr>
      else heap g ! u)"
proof (induction ts arbitrary: g)
  case Nil
  then show ?case by simp
next
  case (Cons t ts)
  let ?g1 = "dereference_task g t"
  have s1: "same_tasks g0 ?g1"
    using same_tasks_trans [OF Cons.prems(1) dereference_task_same] .
  from Cons.prems(2) have d: "distinct ts" and nt: "t \<notin> set ts" by simp_all
  have len: "length (heap ?g1) = length (heap g)" by (simp add: dereference_task_value)
  have v: "dereference_value g = dereference_value g0"
    using dereference_value_same [OF Cons.prems(1)] by auto
  have "heap (dereference_loop (t # ts) g) ! u = heap (dereference_loop ts ?g1) ! u" by simp
  also have "\<dots> = (if u \<in> set ts \<and> u < length (heap ?g1)
      then (heap ?g1 ! u)\<lparr>depends := dereference_value g0 (depends (heap ?g1 ! u))\<rparr>
      else heap ?g1 ! u)"
    by (rule Cons.IH [OF s1 d])
  also have "\<dots> = (if u \<in> set (t # ts) \<and> u < length (heap g)
      then (heap g ! u)\<lparr>depends := dereference_value g0 (depends (heap g ! u))\<rparr>
      else heap g ! u)"
  proof (cases "u = t")
    case True
    with nt show ?thesis
      by (cases "t < length (heap g)") (simp_all add: dereference_task_value v list_update_beyond)
  next
    case False
    then show ?thesis by (simp add: dereference_task_value)
  qed
  finally show ?case .
qed

lemma first_alias_Some:
  "first_alias g ts n = Some c \<Longrightarrow>
   \<exists>t \<in> set ts. task_alias (heap g ! t) = Some n \<and> c = creates (heap g ! t)"
  by (induction ts) (auto split: if_splits)

lemma first_alias_None:
  "first_alias g ts n = None \<Longrightarrow> \<forall>t \<in> set ts. task_alias (heap g ! t) \<noteq> Some n"
  by (induction ts) (auto split: if_splits)

lemma registered_key_owner:
  "registered g \<Longrightarrow> t < length (heap g) \<Longrightarrow> k \<in> set (key_entry (heap g ! t)) \<Longrightarrow>
   task_dict g k = Some t"
  by (simp add: registered_def)

lemma registered_alias_unique:
  assumes "registered g" "t < length (heap g)" "u < length (heap g)"
    "task_alias (heap g ! t) = Some a" "task_alias (heap g ! u) = Some a"
  shows "t = u"
proof -
  from assms(4) have "a \<in> set (key_entry (heap g ! t))" by (simp add: key_entry_def)
  from registered_key_owner [OF assms(1,2) this] have 1: "task_dict g a = Some t" .
  from assms(5) have "a \<in> set (key_entry (heap g ! u))" by (simp add: key_entry_def)
  from registered_key_owner [OF assms(1,3) this] 1 show ?thesis by simp
qed

lemma registered_creates_no_alias:
  assumes "registered g" "t < length (heap g)" "u < length (heap g)"
  shows "task_alias (heap g ! u) \<noteq> Some (creates (heap g ! t))"
proof
  assume a: "task_alias (heap g ! u) = Some (creates (heap g ! t))"
  let ?c = "creates (heap g ! t)"
  from a have "?c \<in> set (key_entry (heap g ! u))" by (simp add: key_entry_def)
  from registered_key_owner [OF assms(1,3) this] have 1: "task_dict g ?c = Some u" .
  have "?c \<in> set (key_entry (heap g ! t))" by (simp add: key_entry_def)
  from registered_key_owner [OF assms(1,2) this] 1 have tu: "t = u" by simp
  from assms(1) have "distinct (concat (map key_entry (heap g)))"
    by (simp add: registered_def keys_of_def)
  then have "distinct (key_entry (heap g ! t))"
    using assms(2) by (auto simp: distinct_concat_iff)
  with a tu show False by (simp add: key_entry_def)
qed

lemma dereference_entry_resolves:
  assumes "registered g"
  shows "resolves_to g d (dereference_entry g d)"
proof (cases "first_alias g (task_list g) d")
  case None
  from first_alias_None [OF None] assms
  have "\<forall>u \<in> set (heap g). task_alias u \<noteq> Some d"
    by (auto simp: registered_def in_set_conv_nth)
  with None show ?thesis
    by (simp add: resolves_to_def dereference_entry_def dereference_alias_helper_def)
next
  case (Some c)
  from first_alias_Some [OF Some] assms obtain t where
    t: "t < length (heap g)" "task_alias (heap g ! t) = Some d" "c = creates (heap g ! t)"
    by (auto simp: registered_def)
  have "\<forall>u \<in> set (heap g). task_alias u = Some d \<longrightarrow> c = creates u"
  proof (intro ballI impI)
    fix u assume "u \<in> set (heap g)" and a: "task_alias u = Some d"
    then obtain i where i: "i < length (heap g)" "u = heap g ! i" by (auto simp: in_set_conv_nth)
    from registered_alias_unique [OF assms t(1) i(1) t(2)] a i have "t = i" by simp
    with t i show "c = creates u" by simp
  qed
  moreover have "\<not> (\<forall>u \<in> set (heap g). task_alias u \<noteq> Some d)"
    using t(1,2) nth_mem [of t "heap g"] by blast
  ultimately show ?thesis using Some
    by (auto simp: resolves_to_def dereference_entry_def dereference_alias_helper_def)
qed

lemma dereference_value_dereferenced:
  "registered g \<Longrightarrow> dereferenced g dep (dereference_value g dep)"
  by (auto simp: dereferenced_def dereference_value_def dereference_entry_resolves
      list_all2_map2 intro!: list_all2_refl split: depends.splits)

lemma dereference_entry_idem:
  assumes "registered g"
  shows "dereference_entry g (dereference_entry g d) = dereference_entry g d"
proof (cases "first_alias g (task_list g) d")
  case None
  then show ?thesis by (simp add: dereference_entry_def dereference_alias_helper_def)
next
  case (Some c)
  from first_alias_Some [OF Some] assms obtain t where
    t: "t < length (heap g)" "c = creates (heap g ! t)"
    by (auto simp: registered_def)
  have "first_alias g (task_list g) c = None"
  proof (cases "first_alias g (task_list g) c")
    case None
    then show ?thesis .
  next
    case (Some c')
    from first_alias_Some [OF Some] assms obtain u where
      "u < length (heap g)" "task_alias (heap g ! u) = Some c" by (auto simp: registered_def)
    with registered_creates_no_alias [OF assms t(1), of u] t show ?thesis by simp
  qed
  with Some show ?thesis by (simp add: dereference_entry_def dereference_alias_helper_def)
qed

lemma dereference_value_idem:
  "registered g \<Longrightarrow> dereference_value g (dereference_value g dep) = dereference_value g dep"
  by (simp add: dereference_value_def dereference_entry_idem split: depends.splits)

lemma dereference_loop_fixed:
  "(\<forall>t \<in> set ts. dereference_task g t = g) \<Longrightarrow> dereference_loop ts g = g"
  by (induction ts) simp_all

section \<open>Claim C8\<close>

text \<open>
  C8. On a graph whose tasks have been registered (which is the state in which \<open>__init__\<close>
  calls it, see \<open>add_tasks_ok\<close>), \<open>_dereference_depends_aliases\<close> replaces every depends
  entry that is the alias of a task by the creates identifier of that task and leaves the
  other entries as they are; and running it a second time changes nothing.
\<close>

theorem dereference_depends_aliases_resolves:
  assumes "registered g"
  shows "(\<forall>t \<in> set (task_list g).
            dereferenced g (depends (heap g ! t))
              (depends (heap (dereference_depends_aliases g) ! t)))
         \<and> dereference_depends_aliases (dereference_depends_aliases g)
             = dereference_depends_aliases g"
proof -
  let ?g' = "dereference_depends_aliases g"
  from assms have tl: "task_list g = [0..<length (heap g)]" by (simp add: registered_def)
  have nth: "heap ?g' ! u =
     (if u < length (heap g)
      then (heap g ! u)\<lparr>depends := dereference_value g (depends (heap g ! u))\<rparr>
      else heap g ! u)" for u
    using dereference_loop_nth [OF same_tasks_refl, of "task_list g" g u] tl
    by (simp add: dereference_depends_aliases_def)
  have s: "same_tasks g ?g'"
    by (simp add: dereference_depends_aliases_def dereference_loop_same)
  have 1: "\<forall>t \<in> set (task_list g).
            dereferenced g (depends (heap g ! t)) (depends (heap ?g' ! t))"
    using tl nth dereference_value_dereferenced [OF assms] by simp
  have fixed: "dereference_task ?g' t = ?g'" if "t \<in> set (task_list ?g')" for t
  proof -
    from that s tl have lt: "t < length (heap g)" by (simp add: same_tasks_def)
    have "dereference_value ?g' (depends (heap ?g' ! t)) = depends (heap ?g' ! t)"
      using lt nth [of t] dereference_value_same [OF s] dereference_value_idem [OF assms]
      by simp
    then show ?thesis by (simp add: dereference_task_value heap_update_id)
  qed
  have "dereference_loop (task_list ?g') ?g' = ?g'"
    by (rule dereference_loop_fixed) (simp add: fixed)
  then have 2: "dereference_depends_aliases ?g' = ?g'"
    by (simp add: dereference_depends_aliases_def [of ?g'])
  from 1 2 show ?thesis by simp
qed

lemma example_added_registered: "registered example_added"
  by (auto simp: registered_def example_added_def example_declarations_def Task_def keys_of_def
      key_entry_def upt_rec_numeral)

lemma example_added_constructed:
  "add_tasks (empty_graph ''wf.yaml'') example_declarations = Inr example_added"
  by (simp add: example_added_def example_declarations_def empty_graph_def new_task_def add_def
      Task_def Let_def numeral_2_eq_2)

theorem dereference_depends_aliases_resolves_witness:
  "registered example_added
   \<and> 2 \<in> set (task_list example_added)
   \<and> dereferenced example_added (depends (heap example_added ! 2))
         (depends (heap (dereference_depends_aliases example_added) ! 2))
   \<and> dereference_depends_aliases (dereference_depends_aliases example_added)
             = dereference_depends_aliases example_added
   \<and> depends (heap example_added ! 2) = DependsList [''first'', ''b'']
   \<and> depends (heap (dereference_depends_aliases example_added) ! 2) = DependsList [''a'', ''b'']"
proof -
  have b: "depends (heap example_added ! 2) = DependsList [''first'', ''b'']"
    by (simp add: example_added_def example_declarations_def Task_def)
  have a: "depends (heap (dereference_depends_aliases example_added) ! 2) = DependsList [''a'', ''b'']"
    by (simp add: example_added_def example_declarations_def Task_def
        dereference_depends_aliases_def dereference_task_def dereference_alias_helper_def Let_def)
  have m: "2 \<in> set (task_list example_added)" by (simp add: example_added_def)
  from dereference_depends_aliases_resolves [OF example_added_registered] example_added_registered
    a b m show ?thesis by blast
qed

section \<open>Claim C6\<close>

lemma link_each_state_file:
  "link_each (st\<lparr>state_file := sf\<rparr>) g t ds = link_each st g t ds"
  by (induction ds arbitrary: g)
     (simp_all add: link_dependency_helper_def split: sum.splits option.splits)

lemma link_task_state_file:
  "link_task (st\<lparr>state_file := sf\<rparr>) g t = link_task st g t"
  by (simp add: link_task_def Let_def link_each_state_file split: sum.splits)

lemma link_loop_state_file:
  "link_loop (st\<lparr>state_file := sf\<rparr>) ts g = link_loop st ts g"
  by (induction ts arbitrary: g) (simp_all add: link_task_state_file split: sum.splits)

lemma load_state_state_file:
  "load_state float (st\<lparr>state_file := sf\<rparr>) g = load_state float st g"
  by (simp add: load_state_def)

lemma TaskGraph_state_file:
  "TaskGraph float (st\<lparr>state_file := sf\<rparr>) p kws = TaskGraph float st p kws"
  by (simp add: TaskGraph_def link_dependencies_def link_loop_state_file load_state_state_file
      cong: sum.case_cong)

text \<open>
  C6 fails on the code. The docstring of \<open>_load_state\<close> says that it loads the states of all
  resources and also the duration statistics, but the body reads the duration table only:
  the graph has no \<open>resource_states\<close> attribute and \<open>__init__\<close> never opens the state table. With
  a state table that holds entries (A, B and C in the example storage), and with one that
  cannot even be read, construction returns the same graph, which carries nothing of the
  table.
\<close>

theorem construction_ignores_state_file:
  "read_from_storage (state_file (example_storage\<lparr>state_file := Some [[''broken'']]\<rparr>))
     = Inl IndexError
   \<and> TaskGraph example_float (example_storage\<lparr>state_file := Some [[''broken'']]\<rparr>) ''wf.yaml''
       example_declarations = Inr example_graph
   \<and> TaskGraph example_float example_storage ''wf.yaml'' example_declarations = Inr example_graph
   \<and> persisted_entry example_storage ''A'' = Some ''1''"
proof -
  have 1: "read_from_storage (state_file (example_storage\<lparr>state_file := Some [[''broken'']]\<rparr>))
     = Inl IndexError"
    by (simp add: read_from_storage_def)
  have 2: "TaskGraph example_float (example_storage\<lparr>state_file := Some [[''broken'']]\<rparr>) ''wf.yaml''
       example_declarations = Inr example_graph"
    using example_graph_constructed by (simp add: TaskGraph_state_file)
  have 3: "persisted_entry example_storage ''A'' = Some ''1''"
    by (simp add: persisted_entry_def read_from_storage_def example_storage_def)
  from 1 2 3 example_graph_constructed show ?thesis by simp
qed

text \<open>
  The part of C6 that the code does: construction never depends on the state table, the
  \<open>task_durations\<close> of a constructed graph are the rows of the duration file with the values
  parsed as numbers, and a duration file that does not exist gives the empty table and no
  error.
\<close>

lemma construction_loads_durations_only:
  "TaskGraph float (st\<lparr>state_file := sf\<rparr>) p kws = TaskGraph float st p kws
   \<and> (duration_file st = None \<longrightarrow> load_state float st g = Inr (g\<lparr>task_durations := []\<rparr>))
   \<and> (TaskGraph float st p kws = Inr g' \<longrightarrow>
        (\<exists>table. read_from_storage (duration_file st) = Inr table
                \<and> typecast float table = Inr (task_durations g')))"
proof -
  have 1: "TaskGraph float (st\<lparr>state_file := sf\<rparr>) p kws = TaskGraph float st p kws"
    by (rule TaskGraph_state_file)
  have 2: "duration_file st = None \<longrightarrow> load_state float st g = Inr (g\<lparr>task_durations := []\<rparr>)"
    by (simp add: load_state_def read_from_storage_def)
  have 3: "TaskGraph float st p kws = Inr g' \<longrightarrow>
        (\<exists>table. read_from_storage (duration_file st) = Inr table
                \<and> typecast float table = Inr (task_durations g'))"
    by (auto simp: TaskGraph_def load_state_def split: sum.splits)
  from 1 2 3 show ?thesis by (intro conjI)
qed

section \<open>Claim C9\<close>

lemma round_half_even_close: "\<bar>of_int (round_half_even y) - y\<bar> \<le> 1 / 2"
proof -
  have lo: "of_int \<lfloor>y\<rfloor> \<le> y" and hi: "y < of_int \<lfloor>y\<rfloor> + 1"
    using floor_correct [of y] by simp_all
  show ?thesis
    unfolding round_half_even_def Let_def using lo hi
    by (auto simp: abs_le_iff; linarith)
qed

lemma round_half_even_nonneg: "0 \<le> y \<Longrightarrow> 0 \<le> round_half_even y"
proof -
  assume "0 \<le> y"
  then have "0 \<le> \<lfloor>y\<rfloor>" by simp
  then show ?thesis unfolding round_half_even_def Let_def by auto
qed

lemma format_2f_close:
  "\<exists>n. format_2f x = (if x < 0 then ''-'' else []) @ show_nat (n div 100) @ ''.''
                       @ [digit (n mod 100 div 10), digit (n mod 10)]
       \<and> \<bar>of_nat n / 100 - \<bar>x\<bar>\<bar> \<le> 1 / 200"
proof -
  define n where "n = nat (round_half_even (\<bar>x\<bar> * 100))"
  have "0 \<le> round_half_even (\<bar>x\<bar> * 100)" by (rule round_half_even_nonneg) simp
  then have "(of_nat n :: rat) = of_int (round_half_even (\<bar>x\<bar> * 100))" by (simp add: n_def)
  with round_half_even_close [of "\<bar>x\<bar> * 100"]
  have "\<bar>of_nat n - \<bar>x\<bar> * 100\<bar> \<le> 1 / 2" by simp
  then have "\<bar>of_nat n / 100 - \<bar>x\<bar>\<bar> \<le> 1 / 200"
    by (simp add: abs_le_iff field_simps)
  then show ?thesis by (intro exI [of _ n]) (simp add: format_2f_def n_def Let_def)
qed

lemma iter_single:
  "t < length (heap g) \<Longrightarrow> downstream_tasks (heap g ! t) = [] \<Longrightarrow>
   iter_graph g (Some [t]) True = [t]"
  by (simp add: iter_graph_def iter_loop.simps iter_step_def pop_task_def neighbours_def)

lemma iter_pair:
  "t < length (heap g) \<Longrightarrow> u < length (heap g) \<Longrightarrow> t \<noteq> u \<Longrightarrow>
   downstream_tasks (heap g ! t) = [u] \<Longrightarrow> downstream_tasks (heap g ! u) = [] \<Longrightarrow>
   iter_graph g (Some [t]) True = [t, u]"
  by (simp add: iter_graph_def iter_loop.simps iter_step_def pop_task_def neighbours_def)

lemma show_nat_1: "show_nat (Suc 0) = ''1''"
  by (simp add: show_nat.simps digit_def)

lemma show_nat_2: "show_nat (Suc (Suc 0)) = ''2''"
  by (simp add: show_nat.simps digit_def)

lemma fmt5: "duration_string 5 = ''5.00 s''"
  by (simp add: duration_string_def format_2f_def round_half_even_def show_nat.simps digit_def)
lemma fmt0: "duration_string 0 = ''0.00 s''"
  by (simp add: duration_string_def format_2f_def round_half_even_def show_nat.simps digit_def)
lemma fmt7200: "duration_string 7200 = ''2.00 h''"
  by (simp add: duration_string_def format_2f_def round_half_even_def show_nat.simps digit_def)

text \<open>
  C9. \<open>duration_string\<close> renders a duration below 10 minutes in seconds, below 2 hours in
  minutes, below 2 days in hours and otherwise in days, each time through \<open>"%.2f"\<close>: the
  digits printed are those of a number of hundredths that is within half a hundredth of the
  value, with exactly two digits after the point. \<open>duration_message\<close>: for no task it
  reports that no tasks are out of sync, with the workflow path; for one task that really
  runs (no pseudotask), has 5 seconds recorded and no downstream task, it reports
  "approximately 5.00 s"; for one such task without a recorded duration whose only
  downstream task has 7200 seconds recorded and no further downstream, it reports 1 task
  of unknown duration and a range that ends at "2.00 h". The message is given before
  colouring.
\<close>

theorem duration_string_and_message:
  "(d < 10 * 60 \<longrightarrow> duration_string d = format_2f d @ '' s'')
   \<and> (10 * 60 \<le> d \<and> d < 2 * 60 * 60 \<longrightarrow> duration_string d = format_2f (d / 60) @ '' m'')
   \<and> (2 * 60 * 60 \<le> d \<and> d < 2 * 60 * 60 * 24
        \<longrightarrow> duration_string d = format_2f (d / 60 / 60) @ '' h'')
   \<and> (2 * 60 * 60 * 24 \<le> d \<longrightarrow> duration_string d = format_2f (d / 60 / 60 / 24) @ '' d'')
   \<and> (\<exists>n. format_2f x = (if x < 0 then ''-'' else []) @ show_nat (n div 100) @ ''.''
                          @ [digit (n mod 100 div 10), digit (n mod 10)]
          \<and> \<bar>of_nat n / 100 - \<bar>x\<bar>\<bar> \<le> 1 / 200)
   \<and> duration_message ident relpath color g []
        = ''No tasks are out of sync in this workflow ('' @ relpath @ '')''
   \<and> (t < length (heap g) \<and> \<not> pseudotask (heap g ! t) \<and> downstream_tasks (heap g ! t) = []
        \<and> map_of (task_durations g) (ident (heap g ! t)) = Some 5
       \<longrightarrow> duration_message ident relpath None g [t]
            = ''The remaining 1-1 tasks need to be executed,'' @ [CHR 0x0A]
              @ ''which will take approximately 5.00 s.'')
   \<and> (t < length (heap g) \<and> u < length (heap g) \<and> t \<noteq> u
        \<and> \<not> pseudotask (heap g ! t) \<and> \<not> pseudotask (heap g ! u)
        \<and> downstream_tasks (heap g ! t) = [u] \<and> downstream_tasks (heap g ! u) = []
        \<and> map_of (task_durations g) (ident (heap g ! t)) = None
        \<and> map_of (task_durations g) (ident (heap g ! u)) = Some 7200
       \<longrightarrow> duration_message ident relpath None g [t]
            = ''1 new tasks with unknown durations.'' @ [CHR 0x0A]
              @ ''The remaining 1-2 tasks need to be executed,'' @ [CHR 0x0A]
              @ ''which will take between 0.00 s and 2.00 h.'')"
proof -
  have p1: "d < 10 * 60 \<longrightarrow> duration_string d = format_2f d @ '' s''"
    by (simp add: duration_string_def)
  have p2: "10 * 60 \<le> d \<and> d < 2 * 60 * 60 \<longrightarrow> duration_string d = format_2f (d / 60) @ '' m''"
    by (simp add: duration_string_def)
  have p3: "2 * 60 * 60 \<le> d \<and> d < 2 * 60 * 60 * 24
        \<longrightarrow> duration_string d = format_2f (d / 60 / 60) @ '' h''"
    by (simp add: duration_string_def)
  have p4: "2 * 60 * 60 * 24 \<le> d \<longrightarrow> duration_string d = format_2f (d / 60 / 60 / 24) @ '' d''"
    by (simp add: duration_string_def)
  note p5 = format_2f_close [of x]
  have p6: "duration_message ident relpath color g []
        = ''No tasks are out of sync in this workflow ('' @ relpath @ '')''"
    by (simp add: duration_message_def)
  have p7: "t < length (heap g) \<and> \<not> pseudotask (heap g ! t) \<and> downstream_tasks (heap g ! t) = []
        \<and> map_of (task_durations g) (ident (heap g ! t)) = Some 5
       \<longrightarrow> duration_message ident relpath None g [t]
            = ''The remaining 1-1 tasks need to be executed,'' @ [CHR 0x0A]
              @ ''which will take approximately 5.00 s.''"
    by (simp add: duration_message_def iter_single show_nat_1 fmt5 del: map_of_eq_None_iff)
  have p8: "t < length (heap g) \<and> u < length (heap g) \<and> t \<noteq> u
        \<and> \<not> pseudotask (heap g ! t) \<and> \<not> pseudotask (heap g ! u)
        \<and> downstream_tasks (heap g ! t) = [u] \<and> downstream_tasks (heap g ! u) = []
        \<and> map_of (task_durations g) (ident (heap g ! t)) = None
        \<and> map_of (task_durations g) (ident (heap g ! u)) = Some 7200
       \<longrightarrow> duration_message ident relpath None g [t]
            = ''1 new tasks with unknown durations.'' @ [CHR 0x0A]
              @ ''The remaining 1-2 tasks need to be executed,'' @ [CHR 0x0A]
              @ ''which will take between 0.00 s and 2.00 h.''"
  proof
    assume a: "t < length (heap g) \<and> u < length (heap g) \<and> t \<noteq> u
        \<and> \<not> pseudotask (heap g ! t) \<and> \<not> pseudotask (heap g ! u)
        \<and> downstream_tasks (heap g ! t) = [u] \<and> downstream_tasks (heap g ! u) = []
        \<and> map_of (task_durations g) (ident (heap g ! t)) = None
        \<and> map_of (task_durations g) (ident (heap g ! u)) = Some 7200"
    then have ig: "iter_graph g (Some [t]) True = [t, u]" by (intro iter_pair) simp_all
    from a show "duration_message ident relpath None g [t]
            = ''1 new tasks with unknown durations.'' @ [CHR 0x0A]
              @ ''The remaining 1-2 tasks need to be executed,'' @ [CHR 0x0A]
              @ ''which will take between 0.00 s and 2.00 h.''"
      by (simp add: duration_message_def ig show_nat_1 show_nat_2 fmt0 fmt7200
          del: map_of_eq_None_iff)
  qed
  from p1 p2 p3 p4 p5 p6 p7 p8 show ?thesis by (intro conjI)
qed

theorem duration_string_and_message_witness:
  "((5 :: rat) < 10 * 60 \<and> duration_string 5 = ''5.00 s'')
   \<and> ((10 :: rat) * 60 \<le> 600 \<and> (600 :: rat) < 2 * 60 * 60 \<and> duration_string 600 = ''10.00 m'')
   \<and> ((2 :: rat) * 60 * 60 \<le> 7200 \<and> (7200 :: rat) < 2 * 60 * 60 * 24
        \<and> duration_string 7200 = ''2.00 h'')
   \<and> ((2 :: rat) * 60 * 60 * 24 \<le> 172800 \<and> duration_string 172800 = ''2.00 d'')
   \<and> duration_message creates ''wf.yaml'' None example_graph []
        = ''No tasks are out of sync in this workflow (wf.yaml)''
   \<and> (map_of (task_durations (example_graph\<lparr>task_durations := [(''c'', 5)]\<rparr>)) ''c'' = Some 5
        \<and> duration_message creates ''wf.yaml'' None
             (example_graph\<lparr>task_durations := [(''c'', 5)]\<rparr>) [2]
            = ''The remaining 1-1 tasks need to be executed,'' @ [CHR 0x0A]
              @ ''which will take approximately 5.00 s.'')
   \<and> (map_of (task_durations (example_graph\<lparr>task_durations := [(''c'', 7200)]\<rparr>)) ''b'' = None
        \<and> map_of (task_durations (example_graph\<lparr>task_durations := [(''c'', 7200)]\<rparr>)) ''c''
            = Some 7200
        \<and> duration_message creates ''wf.yaml'' None
             (example_graph\<lparr>task_durations := [(''c'', 7200)]\<rparr>) [1]
            = ''1 new tasks with unknown durations.'' @ [CHR 0x0A]
              @ ''The remaining 1-2 tasks need to be executed,'' @ [CHR 0x0A]
              @ ''which will take between 0.00 s and 2.00 h.'')"
proof -
  let ?g5 = "example_graph\<lparr>task_durations := [(''c'', 5)]\<rparr>"
  let ?g7 = "example_graph\<lparr>task_durations := [(''c'', 7200)]\<rparr>"
  have f: "format_2f 5 = ''5.00''" "format_2f (600 / 60) = ''10.00''"
    "format_2f (7200 / 60 / 60) = ''2.00''" "format_2f (172800 / 60 / 60 / 24) = ''2.00''"
    by (simp_all add: format_2f_def round_half_even_def show_nat.simps digit_def)
  note t5 = duration_string_and_message [where d = 5 and ident = creates
      and relpath = "''wf.yaml''" and color = None and g = ?g5 and t = 2 and u = 2]
  note t600 = duration_string_and_message [where d = 600 and ident = creates
      and relpath = "''wf.yaml''" and color = None and g = ?g7 and t = 1 and u = 2]
  note t7200 = duration_string_and_message [where d = 7200 and ident = creates
      and relpath = "''wf.yaml''" and color = None and g = example_graph and t = 1 and u = 2]
  note tdays = duration_string_and_message [where d = 172800]
  have c1: "(5 :: rat) < 10 * 60 \<and> duration_string 5 = ''5.00 s''"
    using t5 f by simp
  have c2: "(10 :: rat) * 60 \<le> 600 \<and> (600 :: rat) < 2 * 60 * 60
      \<and> duration_string 600 = ''10.00 m''"
    using t600 f by simp
  have c3: "(2 :: rat) * 60 * 60 \<le> 7200 \<and> (7200 :: rat) < 2 * 60 * 60 * 24
        \<and> duration_string 7200 = ''2.00 h''"
    using t7200 f by simp
  have c4: "(2 :: rat) * 60 * 60 * 24 \<le> 172800 \<and> duration_string 172800 = ''2.00 d''"
    using tdays f by simp
  have c5: "duration_message creates ''wf.yaml'' None example_graph []
        = ''No tasks are out of sync in this workflow (wf.yaml)''"
    using t7200 by simp
  have h5: "2 < length (heap ?g5) \<and> \<not> pseudotask (heap ?g5 ! 2)
        \<and> downstream_tasks (heap ?g5 ! 2) = []
        \<and> map_of (task_durations ?g5) (creates (heap ?g5 ! 2)) = Some 5"
    by (simp add: example_graph_def)
  have c6: "map_of (task_durations ?g5) ''c'' = Some 5
        \<and> duration_message creates ''wf.yaml'' None ?g5 [2]
            = ''The remaining 1-1 tasks need to be executed,'' @ [CHR 0x0A]
              @ ''which will take approximately 5.00 s.''"
    using t5 h5 by simp
  have h7: "1 < length (heap ?g7) \<and> 2 < length (heap ?g7) \<and> (1 :: nat) \<noteq> 2
        \<and> \<not> pseudotask (heap ?g7 ! 1) \<and> \<not> pseudotask (heap ?g7 ! 2)
        \<and> downstream_tasks (heap ?g7 ! 1) = [2] \<and> downstream_tasks (heap ?g7 ! 2) = []
        \<and> map_of (task_durations ?g7) (creates (heap ?g7 ! 1)) = None
        \<and> map_of (task_durations ?g7) (creates (heap ?g7 ! 2)) = Some 7200"
    by (simp add: example_graph_def)
  have c7: "map_of (task_durations ?g7) ''b'' = None
        \<and> map_of (task_durations ?g7) ''c'' = Some 7200
        \<and> duration_message creates ''wf.yaml'' None ?g7 [1]
            = ''1 new tasks with unknown durations.'' @ [CHR 0x0A]
              @ ''The remaining 1-2 tasks need to be executed,'' @ [CHR 0x0A]
              @ ''which will take between 0.00 s and 2.00 h.''"
    using t600 h7 by simp
  from c1 c2 c3 c4 c5 c6 c7 show ?thesis by blast
qed

section \<open>Claim C2\<close>



















end
